theory Spec2Isabelle
  imports Main "HOL-Library.Word"
begin

section \<open>Errors and outcomes\<close>

text \<open>
  The three package-level error values of \<^verbatim>\<open>sheet_writer.go\<close>, and the error that
  \<^verbatim>\<open>strconv.Atoi\<close> returns (a \<^verbatim>\<open>*strconv.NumError\<close> holding the offending text and
  one of \<^verbatim>\<open>ErrSyntax\<close>, \<^verbatim>\<open>ErrRange\<close>).
\<close>

datatype numErr = ErrSyntax | ErrRange

datatype error =
    ErrUnsupportedType
  | ErrUnsupportedContentType
  | ErrHeadingPropRequired
  | NumError string numErr

text \<open>
  A Go call either returns or panics. \<open>Returned x\<close> is a normal return with value \<open>x\<close>
  (for a function of result type \<^verbatim>\<open>error\<close>, \<open>x\<close> is \<open>None\<close> for \<^verbatim>\<open>nil\<close>);
  \<open>Panicked msg\<close> is a run-time panic with the message of the Go runtime or library.
\<close>

datatype 'a outcome = Returned 'a | Panicked string

section \<open>Character classes of the three tag patterns\<close>

text \<open>
  Go's \<^verbatim>\<open>regexp\<close> classes are ASCII-only: \<^verbatim>\<open>\d\<close> is \<^verbatim>\<open>[0-9]\<close>, \<^verbatim>\<open>\w\<close> is
  \<^verbatim>\<open>[0-9A-Za-z_]\<close> and \<^verbatim>\<open>\s\<close> is \<^verbatim>\<open>[\t\n\f\r ]\<close>. Strings are byte strings; every
  literal and class of the patterns is ASCII, so a byte of a multi-byte rune matches nothing.
\<close>

definition digits :: string where
  "digits = ''0123456789''"

definition wordChars :: string where
  "wordChars = ''0123456789ABCDEFGHIJKLMNOPQRSTUVWXYZabcdefghijklmnopqrstuvwxyz_''"

definition spaceChars :: string where
  "spaceChars = [CHR 0x09, CHR 0x0A, CHR 0x0C, CHR 0x0D, CHR 0x20]"

definition dquote :: char where
  "dquote = CHR 0x22"

definition backslash :: char where
  "backslash = CHR 0x5C"

text \<open>\<^verbatim>\<open>[\d\s\w]\<close> of \<^verbatim>\<open>orderRegex\<close>.\<close>

definition orderClass :: string where
  "orderClass = digits @ spaceChars @ wordChars"

text \<open>
  \<^verbatim>\<open>[#\w.,-/\\ ]\<close> of the quoted alternative of \<^verbatim>\<open>headingRegex\<close>: inside the class
  \<^verbatim>\<open>,-/\<close> is the range from comma to slash, that is comma, minus, dot and slash.
\<close>

definition quotedHeadingClass :: string where
  "quotedHeadingClass = ''#'' @ wordChars @ ''.'' @ '',-./'' @ [backslash] @ '' ''"

text \<open>\<^verbatim>\<open>[#\w\s]\<close> of the unquoted alternative of \<^verbatim>\<open>headingRegex\<close>.\<close>

definition plainHeadingClass :: string where
  "plainHeadingClass = ''#'' @ wordChars @ spaceChars"

text \<open>\<^verbatim>\<open>[-\w\s%.\d\\/]\<close> of \<^verbatim>\<open>formatRegex\<close>.\<close>

definition formatClass :: string where
  "formatClass = ''-'' @ wordChars @ spaceChars @ ''%.'' @ digits @ [backslash] @ ''/''"

section \<open>Regular expressions with leftmost-first matching\<close>

text \<open>
  The fragment of Go's pattern syntax that the three patterns use. \<open>Plus cs\<close> is a
  character class followed by \<^verbatim>\<open>+\<close>, the class given by its members; \<open>Group n r\<close> is the
  named group \<^verbatim>\<open>(?P<n>r)\<close>. The unnamed groups of the patterns only bracket, and
  \<^verbatim>\<open>findStringSubmatchMap\<close> skips them, so they are not represented.
\<close>

datatype regex =
    Lit string
  | Plus string
  | Opt regex
  | Alt regex regex
  | Seq regex regex
  | EndText
  | Group string regex

type_synonym captures = "string \<rightharpoonup> string"

text \<open>
  \<open>rmatch r s c\<close> lists, in the order a backtracking search tries them, the ways \<open>r\<close> can
  match at the start of \<open>s\<close>: each is the unread rest of \<open>s\<close> with the captures made so
  far. \<^verbatim>\<open>+\<close> and \<^verbatim>\<open>?\<close> are greedy (longest first), an alternation tries its left
  branch first. Go's \<^verbatim>\<open>regexp\<close> returns the leftmost match and, among those, the one a
  backtracking search finds first, so the head of this list is its match.
\<close>

primrec rmatch :: "regex \<Rightarrow> string \<Rightarrow> captures \<Rightarrow> (string \<times> captures) list" where
  "rmatch (Lit l) s c = (if take (length l) s = l then [(drop (length l) s, c)] else [])"
| "rmatch (Plus cs) s c =
     map (\<lambda>n. (drop n s, c)) (rev [1 ..< Suc (length (takeWhile (\<lambda>x. x \<in> set cs) s))])"
| "rmatch (Opt r) s c = rmatch r s c @ [(s, c)]"
| "rmatch (Alt r1 r2) s c = rmatch r1 s c @ rmatch r2 s c"
| "rmatch (Seq r1 r2) s c = concat (map (\<lambda>(s', c'). rmatch r2 s' c') (rmatch r1 s c))"
| "rmatch EndText s c = (if s = [] then [(s, c)] else [])"
| "rmatch (Group n r) s c =
     map (\<lambda>(s', c'). (s', c'(n \<mapsto> take (length s - length s') s))) (rmatch r s c)"

text \<open>\<^verbatim>\<open>r.SubexpNames()\<close> without the unnamed entries.\<close>

primrec SubexpNames :: "regex \<Rightarrow> string list" where
  "SubexpNames (Lit l) = []"
| "SubexpNames (Plus cs) = []"
| "SubexpNames (Opt r) = SubexpNames r"
| "SubexpNames (Alt r1 r2) = SubexpNames r1 @ SubexpNames r2"
| "SubexpNames (Seq r1 r2) = SubexpNames r1 @ SubexpNames r2"
| "SubexpNames EndText = []"
| "SubexpNames (Group n r) = n # SubexpNames r"

text \<open>
  \<^verbatim>\<open>r.FindStringSubmatch(s)\<close>: the first position of \<open>s\<close>, from the left, where the
  pattern matches, with the captures of the first match there; \<open>None\<close> is Go's \<^verbatim>\<open>nil\<close>.
\<close>

fun FindStringSubmatch :: "regex \<Rightarrow> string \<Rightarrow> captures option" where
  "FindStringSubmatch r [] =
     (case rmatch r [] Map.empty of [] \<Rightarrow> None | (rest, c) # _ \<Rightarrow> Some c)"
| "FindStringSubmatch r (x # t) =
     (case rmatch r (x # t) Map.empty of
        [] \<Rightarrow> FindStringSubmatch r t
      | (rest, c) # _ \<Rightarrow> Some c)"

text \<open>
  Reading a Go \<^verbatim>\<open>map[string]string\<close> at a key it does not hold gives the empty string.
\<close>

definition index_str :: "(string \<rightharpoonup> string) \<Rightarrow> string \<Rightarrow> string" where
  "index_str m k = (case m k of None \<Rightarrow> [] | Some v \<Rightarrow> v)"

text \<open>
  \<^verbatim>\<open>findStringSubmatchMap\<close>: no match gives the empty map; a match gives every named
  group its text, the empty string for a group that took no part in the match.
\<close>

definition findStringSubmatchMap :: "regex \<Rightarrow> string \<Rightarrow> (string \<rightharpoonup> string)" where
  "findStringSubmatchMap r s =
     (case FindStringSubmatch r s of
        None \<Rightarrow> Map.empty
      | Some c \<Rightarrow> fold (\<lambda>name captures. captures(name \<mapsto> index_str c name)) (SubexpNames r) Map.empty)"

definition orderRegex :: regex where
  "orderRegex =
     Alt (Seq (Lit ''order='') (Seq (Group ''order'' (Plus orderClass)) (Opt (Lit '','')))) EndText"

definition headingRegex :: regex where
  "headingRegex =
     Seq (Lit ''heading='')
       (Seq (Group ''heading''
               (Alt (Seq (Lit [dquote]) (Seq (Plus quotedHeadingClass) (Lit [dquote])))
                    (Plus plainHeadingClass)))
            (Alt (Lit '','') EndText))"

definition formatRegex :: regex where
  "formatRegex =
     Seq (Lit ''format='') (Seq (Group ''format'' (Plus formatClass)) (Alt (Lit '','') EndText))"

section \<open>Library functions on strings\<close>

text \<open>
  \<^verbatim>\<open>strconv.Atoi\<close> on a 64-bit platform: an optional sign and then decimal digits only.
  The text is read from the left. Malformed text gives \<open>0\<close> and a syntax error; a number
  outside the range of \<^verbatim>\<open>int\<close> gives the nearest bound and a range error, and so does a
  run of digits that overflows 64 bits before a malformed character is reached.
\<close>

definition digitVal :: "char \<Rightarrow> int" where
  "digitVal ch = int (of_char ch) - 48"

definition decimal :: "string \<Rightarrow> int" where
  "decimal ds = foldl (\<lambda>n ch. n * 10 + digitVal ch) 0 ds"

definition Atoi :: "string \<Rightarrow> int \<times> error option" where
  "Atoi s =
     (let neg = (s \<noteq> [] \<and> hd s = CHR ''-'');
          ds = (if s \<noteq> [] \<and> (hd s = CHR ''-'' \<or> hd s = CHR ''+'') then tl s else s);
          run = takeWhile (\<lambda>ch. ch \<in> set digits) ds
      in if ds = [] then (0, Some (NumError s ErrSyntax))
         else if 2 ^ 64 \<le> decimal run then
           (if neg then - (2 ^ 63) else 2 ^ 63 - 1, Some (NumError s ErrRange))
         else if run \<noteq> ds then (0, Some (NumError s ErrSyntax))
         else if \<not> neg \<and> 2 ^ 63 \<le> decimal ds then (2 ^ 63 - 1, Some (NumError s ErrRange))
         else if neg \<and> 2 ^ 63 < decimal ds then (- (2 ^ 63), Some (NumError s ErrRange))
         else (if neg then - decimal ds else decimal ds, None))"

text \<open>\<^verbatim>\<open>strings.Trim(s, cutset)\<close>: drop the leading and trailing bytes that are in the cutset.\<close>

definition Trim :: "string \<Rightarrow> string \<Rightarrow> string" where
  "Trim s cutset =
     rev (dropWhile (\<lambda>ch. ch \<in> set cutset) (rev (dropWhile (\<lambda>ch. ch \<in> set cutset) s)))"

text \<open>
  \<^verbatim>\<open>strings.TrimSpace\<close> on ASCII text: tab, newline, vertical tab, form feed, carriage
  return and space. It is only applied to a capture of \<^verbatim>\<open>headingRegex\<close>, which is ASCII.
\<close>

definition TrimSpace :: "string \<Rightarrow> string" where
  "TrimSpace s = Trim s [CHR 0x09, CHR 0x0A, CHR 0x0B, CHR 0x0C, CHR 0x0D, CHR 0x20]"

section \<open>Parsing a tag\<close>

record parseOpts =
  order :: int
  heading :: string
  format :: string

definition hasFormatting :: "parseOpts \<Rightarrow> bool" where
  "hasFormatting o' = (format o' = [])"

definition orderFromTag :: "string \<Rightarrow> int \<times> error option" where
  "orderFromTag tag = Atoi (index_str (findStringSubmatchMap orderRegex tag) ''order'')"

definition headingFromTag :: "string \<Rightarrow> string \<times> error option" where
  "headingFromTag tag =
     (let h = Trim (index_str (findStringSubmatchMap headingRegex tag) ''heading'') [dquote];
          h = TrimSpace h
      in if h \<noteq> [] then (h, None) else (h, Some ErrHeadingPropRequired))"

definition formatFromTag :: "string \<Rightarrow> string" where
  "formatFromTag tag = index_str (findStringSubmatchMap formatRegex tag) ''format''"

definition parseOptFromTag :: "string \<Rightarrow> error + parseOpts" where
  "parseOptFromTag tag =
     (case orderFromTag tag of
        (n, Some err) \<Rightarrow> Inl err
      | (n, None) \<Rightarrow>
          (case headingFromTag tag of
             (h, Some err) \<Rightarrow> Inl err
           | (h, None) \<Rightarrow>
               Inr \<lparr>order = n, heading = h, format = formatFromTag tag\<rparr>))"

section \<open>Field values and display strings\<close>

text \<open>
  \<^verbatim>\<open>time.Time\<close>: the seconds since January 1 of year 1, the nanoseconds within the second
  and the name of the location. \<^verbatim>\<open>IsZero\<close> is as in the library: both counts are zero.
\<close>

record Time =
  sec :: int
  nsec :: int
  loc :: string

definition IsZero :: "Time \<Rightarrow> bool" where
  "IsZero t = (sec t = 0 \<and> nsec t = 0)"

text \<open>
  The dynamic value of a struct field, \<^verbatim>\<open>item.Field(j).Interface()\<close>, by the cases that the
  type switch of \<^verbatim>\<open>writeWithTags\<close> tells apart: the eight built-in types it lists (fixed-width
  values as machine words, the floating-point ones as their bit patterns), \<^verbatim>\<open>time.Time\<close>,
  and a value of any other type. Of the latter the model keeps a printed form that
  identifies it and, when the type has a method \<^verbatim>\<open>String() string\<close>, what that method returns.
\<close>

datatype fieldval =
    V_int "64 word"
  | V_int8 "8 word"
  | V_int16 "16 word"
  | V_int32 "32 word"
  | V_int64 "64 word"
  | V_float32 "32 word"
  | V_float64 "64 word"
  | V_string string
  | V_Time Time
  | V_other string "string option"

text \<open>
  A Go string written into a cell. The text that \<^verbatim>\<open>fmt.Sprintf\<close>, \<^verbatim>\<open>Time.Format\<close> and
  \<^verbatim>\<open>Time.String\<close> produce is the standard library's business; such a string is kept as the
  call that produces it, with its arguments. \<open>Str s\<close> is a string whose text is known.
\<close>

datatype gostring =
    Str string
  | Sprintf string fieldval
  | Time_Format Time string
  | Time_String Time

text \<open>The first case of the type switch: the listed built-in types.\<close>

definition isBasic :: "fieldval \<Rightarrow> bool" where
  "isBasic val =
     (case val of
        V_int _ \<Rightarrow> True | V_int8 _ \<Rightarrow> True | V_int16 _ \<Rightarrow> True | V_int32 _ \<Rightarrow> True
      | V_int64 _ \<Rightarrow> True | V_float32 _ \<Rightarrow> True | V_float64 _ \<Rightarrow> True | V_string _ \<Rightarrow> True
      | V_Time _ \<Rightarrow> False | V_other _ _ \<Rightarrow> False)"

text \<open>
  \<^verbatim>\<open>val.(fmt.Stringer)\<close>: the value's \<^verbatim>\<open>String\<close> method, when its type has one. The
  built-in types have no methods; \<^verbatim>\<open>time.Time\<close> has one.
\<close>

definition Stringer :: "fieldval \<Rightarrow> gostring option" where
  "Stringer val =
     (case val of
        V_Time t \<Rightarrow> Some (Time_String t)
      | V_other _ m \<Rightarrow> map_option Str m
      | _ \<Rightarrow> None)"

text \<open>
  The type switch of \<^verbatim>\<open>writeWithTags\<close> (lines 109 to 132), in the order of its cases: the
  string that goes into the cell of a field with column options \<open>opt\<close> and value \<open>val\<close>.
\<close>

definition formatValue :: "parseOpts \<Rightarrow> fieldval \<Rightarrow> gostring" where
  "formatValue opt val =
     (if isBasic val then
        (let fmt = (if hasFormatting opt then format opt else ''%v'') in Sprintf fmt val)
      else
        (case val of
           V_Time t \<Rightarrow>
             (let s = (if hasFormatting opt then Time_Format t (format opt) else Time_String t)
              in if IsZero t then Str '' - '' else s)
         | _ \<Rightarrow>
             (case Stringer val of
                Some s \<Rightarrow> s
              | None \<Rightarrow> Sprintf ''%v'' val)))"

section \<open>Types, input data and the sheet\<close>

datatype kind =
    Invalid | Bool | Int | Int8 | Int16 | Int32 | Int64
  | Uint | Uint8 | Uint16 | Uint32 | Uint64 | Uintptr
  | Float32 | Float64 | Complex64 | Complex128
  | Array | Chan | Func | Interface | Map | Pointer | Slice | String | Struct | UnsafePointer

text \<open>
  A field of a struct type: its name, what \<^verbatim>\<open>Tag.Get("xls")\<close> returns for it (the empty
  string when the tag has no such key) and whether the field is exported.
\<close>

record structField =
  Name :: string
  xls :: string
  exported :: bool

text \<open>
  A type, as far as the program inspects it. \<open>BasicType k\<close> is any type of kind \<open>k\<close> that
  is not a struct, an array or a slice; the program reads nothing but its kind.
\<close>

datatype rtype =
    BasicType kind
  | StructType "structField list"
  | ArrayType nat rtype
  | SliceType rtype

fun Kind :: "rtype \<Rightarrow> kind" where
  "Kind (BasicType k) = k"
| "Kind (StructType fs) = Struct"
| "Kind (ArrayType n t) = Array"
| "Kind (SliceType t) = Slice"

text \<open>
  \<^verbatim>\<open>Type.Elem\<close>. The program calls it on array and slice types only; on a type without an
  element type it panics.
\<close>

fun Elem :: "rtype \<Rightarrow> rtype outcome" where
  "Elem (ArrayType n t) = Returned t"
| "Elem (SliceType t) = Returned t"
| "Elem t = Panicked ''reflect: Elem of invalid type''"

text \<open>
  Modelled from the spec: the declaration of the interface \<^verbatim>\<open>Marshaller\<close> is not in the
  source file. The spec gives the capability a header, a sequence of strings, and rows, a
  sequence of sequences of strings; \<^verbatim>\<open>writeWithMarshaller\<close> calls them \<^verbatim>\<open>Header()\<close> and
  \<^verbatim>\<open>Data()\<close>. A record of this type holds what the two methods of a value return.
\<close>

record Marshaller =
  Header :: "string list"
  Data :: "string list list"

text \<open>
  A non-nil \<^verbatim>\<open>data\<close>: its dynamic type, the \<^verbatim>\<open>Marshaller\<close> methods of that type when it
  has them, and, for an array or slice of structs, the field values of each element in
  declaration order (one value for each field of the element type). An
  \<^verbatim>\<open>interface{}\<close> argument is \<open>None\<close> for \<^verbatim>\<open>nil\<close> and \<open>Some v\<close> otherwise.
\<close>

record val =
  Type :: rtype
  methods :: "Marshaller option"
  elems :: "fieldval list list"

type_synonym iface = "val option"

text \<open>The sheet is the sink: the rows added so far, each a list of cell values.\<close>

type_synonym sheet = "gostring list list"

definition writeRow :: "sheet \<Rightarrow> gostring list \<Rightarrow> sheet" where
  "writeRow sheet data = sheet @ [data]"

definition writeHeading :: "sheet \<Rightarrow> gostring list \<Rightarrow> sheet" where
  "writeHeading sheet data = writeRow sheet data"

definition writeHeadingFromOpts :: "sheet \<Rightarrow> parseOpts list \<Rightarrow> sheet" where
  "writeHeadingFromOpts sheet opts = writeRow sheet (map (\<lambda>opt. Str (heading opt)) opts)"

section \<open>Reflection\<close>

text \<open>\<^verbatim>\<open>reflect.ValueOf(data).Kind()\<close>: \<^verbatim>\<open>Invalid\<close> for a nil interface.\<close>

definition ValueOf_Kind :: "iface \<Rightarrow> kind" where
  "ValueOf_Kind data = (case data of None \<Rightarrow> Invalid | Some v \<Rightarrow> Kind (Type v))"

text \<open>\<^verbatim>\<open>reflect.TypeOf\<close>: the dynamic type, \<^verbatim>\<open>nil\<close> for a nil interface.\<close>

definition TypeOf :: "iface \<Rightarrow> rtype option" where
  "TypeOf data = map_option Type data"

text \<open>
  \<^verbatim>\<open>var marshallerType = reflect.TypeOf((Marshaller)(nil))\<close>: the argument is the nil value
  of the interface type, converted to \<^verbatim>\<open>interface{}\<close>, which is the nil interface.
\<close>

definition marshallerType :: "rtype option" where
  "marshallerType = TypeOf None"

text \<open>
  \<^verbatim>\<open>reflect.ValueOf(data).Type().Implements(u)\<close>, as \<^verbatim>\<open>reflect\<close> defines it: a panic
  when \<open>u\<close> is nil, a panic when \<open>u\<close> is not an interface type, and otherwise whether the
  method set of the type of \<open>data\<close> has the methods of \<open>u\<close>. \<^verbatim>\<open>Marshaller\<close> is the only
  interface the program asks for. \<^verbatim>\<open>Type()\<close> of the zero \<^verbatim>\<open>Value\<close> panics.
\<close>

definition Implements :: "iface \<Rightarrow> rtype option \<Rightarrow> bool outcome" where
  "Implements data u =
     (case data of
        None \<Rightarrow> Panicked ''reflect: call of reflect.Value.Type on zero Value''
      | Some v \<Rightarrow>
          (case u of
             None \<Rightarrow> Panicked ''reflect: nil type passed to Type.Implements''
           | Some t \<Rightarrow>
               if Kind t \<noteq> Interface then
                 Panicked ''reflect: non-interface type passed to Type.Implements''
               else Returned (methods v \<noteq> None)))"

text \<open>
  The fields of a struct type (\<^verbatim>\<open>NumField\<close>, \<^verbatim>\<open>Field\<close>) and the elements of an array or
  slice (\<^verbatim>\<open>Len\<close>, \<^verbatim>\<open>Index\<close>), where the program has already checked the kind.
\<close>

definition Fields :: "rtype \<Rightarrow> structField list" where
  "Fields t = (case t of StructType fs \<Rightarrow> fs | _ \<Rightarrow> [])"

definition Items :: "iface \<Rightarrow> fieldval list list" where
  "Items data = (case data of None \<Rightarrow> [] | Some v \<Rightarrow> elems v)"

definition getListType :: "iface \<Rightarrow> rtype outcome" where
  "getListType s =
     (case TypeOf s of
        None \<Rightarrow> Panicked ''invalid memory address or nil pointer dereference''
      | Some t \<Rightarrow> Elem t)"

section \<open>The declarative path\<close>

text \<open>
  The loop of \<^verbatim>\<open>getParseOptions\<close> over the fields, with the slice \<open>opts\<close> built so far:
  a field without a tag, or with the tag \<^verbatim>\<open>-\<close>, is skipped; the first tag that does not
  parse ends the loop with its error.
\<close>

fun parseFields :: "structField list \<Rightarrow> parseOpts list \<Rightarrow> error + parseOpts list" where
  "parseFields [] opts = Inr opts"
| "parseFields (f # fs) opts =
     (let tag = xls f
      in if tag = [] \<or> tag = ''-'' then parseFields fs opts
         else (case parseOptFromTag tag of
                 Inl err \<Rightarrow> Inl err
               | Inr opt \<Rightarrow> parseFields fs (opts @ [opt])))"

definition getParseOptions :: "rtype \<Rightarrow> (error + parseOpts list) outcome" where
  "getParseOptions data =
     (case data of
        StructType fs \<Rightarrow> Returned (parseFields fs [])
      | _ \<Rightarrow> Panicked ''reflect: NumField of non-struct type'')"

text \<open>
  \<^verbatim>\<open>sort.Sort(optsByOrder(opts))\<close>. \<^verbatim>\<open>Less\<close> compares the orders. The library promises an
  ascending result and no stability. The model is the insertion sort that the library runs
  on a short slice (up to six elements in every release, up to twelve in the current ones):
  each element in turn moves left while it is less than its left neighbour, which puts it
  in front of the first larger element of the sorted part before it. Where the orders are
  pairwise distinct, every sorting algorithm gives this result.
\<close>

definition Less :: "parseOpts \<Rightarrow> parseOpts \<Rightarrow> bool" where
  "Less a b = (order a < order b)"

fun insertion :: "parseOpts \<Rightarrow> parseOpts list \<Rightarrow> parseOpts list" where
  "insertion x [] = [x]"
| "insertion x (y # ys) = (if Less x y then x # y # ys else y # insertion x ys)"

definition sort_Sort :: "parseOpts list \<Rightarrow> parseOpts list" where
  "sort_Sort opts = foldl (\<lambda>sorted x. insertion x sorted) [] opts"

text \<open>
  The map from order to cell position (lines 86 to 89): a later position overwrites an
  earlier one with the same order. Reading it at a missing key gives \<open>0\<close>.
\<close>

definition orderToCellPos :: "parseOpts list \<Rightarrow> (int \<rightharpoonup> nat)" where
  "orderToCellPos opts = fold (\<lambda>(i, opt) m. m(order opt \<mapsto> i)) (enumerate 0 opts) Map.empty"

definition index_pos :: "(int \<rightharpoonup> nat) \<Rightarrow> int \<Rightarrow> nat" where
  "index_pos m k = (case m k of None \<Rightarrow> 0 | Some p \<Rightarrow> p)"

text \<open>
  The inner loop (lines 97 to 133) over the fields of one item, each paired with its value;
  \<open>values\<close> is the slice of cell strings, which the loop updates in place. Indexing
  \<open>opts\<close> out of range panics, and so does \<^verbatim>\<open>Interface()\<close> on the value of an unexported
  field.
\<close>

fun writeFields ::
  "parseOpts list \<Rightarrow> (int \<rightharpoonup> nat) \<Rightarrow> (structField \<times> fieldval) list \<Rightarrow> gostring list
     \<Rightarrow> gostring list outcome" where
  "writeFields opts m [] values = Returned values"
| "writeFields opts m ((f, v) # rest) values =
     (let tag = xls f
      in if tag = [] \<or> tag = ''-'' then writeFields opts m rest values
         else
           (let n = fst (orderFromTag tag);
                pos = index_pos m n
            in if \<not> pos < length opts then Panicked ''index out of range''
               else if \<not> exported f then
                 Panicked ''reflect.Value.Interface: cannot return value obtained from unexported field or method''
               else writeFields opts m rest (values[pos := formatValue (opts ! pos) v])))"

text \<open>
  The outer loop (lines 94 to 135) over the items: one row per item. The slice \<open>values\<close>
  is allocated once, before the loop, and carried from one item to the next.
\<close>

fun writeItems ::
  "parseOpts list \<Rightarrow> (int \<rightharpoonup> nat) \<Rightarrow> structField list \<Rightarrow> fieldval list list \<Rightarrow> gostring list
     \<Rightarrow> sheet \<Rightarrow> error option outcome \<times> sheet" where
  "writeItems opts m fs [] values sheet = (Returned None, sheet)"
| "writeItems opts m fs (item # items) values sheet =
     (case writeFields opts m (zip fs item) values of
        Panicked msg \<Rightarrow> (Panicked msg, sheet)
      | Returned values' \<Rightarrow> writeItems opts m fs items values' (writeRow sheet values'))"

text \<open>
  \<^verbatim>\<open>writeWithTags\<close>. It is called by \<^verbatim>\<open>WriteToSheet\<close> only, with an array or slice of
  structs; the result is the returned error, or the panic, with the sheet as it then is.
\<close>

definition writeWithTags :: "sheet \<Rightarrow> iface \<Rightarrow> error option outcome \<times> sheet" where
  "writeWithTags sheet data =
     (case getListType data of
        Panicked msg \<Rightarrow> (Panicked msg, sheet)
      | Returned itemsType \<Rightarrow>
          (case getParseOptions itemsType of
             Panicked msg \<Rightarrow> (Panicked msg, sheet)
           | Returned (Inl err) \<Rightarrow> (Returned (Some err), sheet)
           | Returned (Inr opts) \<Rightarrow>
               (let opts = sort_Sort opts;
                    m = orderToCellPos opts;
                    sheet = writeHeadingFromOpts sheet opts;
                    values = replicate (length opts) (Str [])
                in writeItems opts m (Fields itemsType) (Items data) values sheet)))"

section \<open>The explicit path and the entry point\<close>

text \<open>
  \<^verbatim>\<open>writeWithMarshaller\<close>: the type assertion \<^verbatim>\<open>data.(Marshaller)\<close> panics when the
  dynamic type of \<open>data\<close> lacks the methods; otherwise the header and then each row of
  \<^verbatim>\<open>Data()\<close> are written.
\<close>

definition writeWithMarshaller :: "sheet \<Rightarrow> iface \<Rightarrow> error option outcome \<times> sheet" where
  "writeWithMarshaller sheet data =
     (case Option.bind data methods of
        None \<Rightarrow> (Panicked ''interface conversion: interface is not Marshaller'', sheet)
      | Some m \<Rightarrow>
          (Returned None,
           foldl (\<lambda>sh row. writeRow sh (map Str row)) (writeHeading sheet (map Str (Header m))) (Data m)))"

definition WriteToSheet :: "sheet \<Rightarrow> iface \<Rightarrow> error option outcome \<times> sheet" where
  "WriteToSheet sheet data =
     (let kind = ValueOf_Kind data
      in if kind \<noteq> Array \<and> kind \<noteq> Slice then (Returned (Some ErrUnsupportedType), sheet)
         else
           (case getListType data of
              Panicked msg \<Rightarrow> (Panicked msg, sheet)
            | Returned itemsType \<Rightarrow>
                if Kind itemsType \<noteq> Struct then (Returned (Some ErrUnsupportedContentType), sheet)
                else
                  (case Implements data marshallerType of
                     Panicked msg \<Rightarrow> (Panicked msg, sheet)
                   | Returned True \<Rightarrow> writeWithMarshaller sheet data
                   | Returned False \<Rightarrow> writeWithTags sheet data)))"

section \<open>Notions used to state the properties\<close>

text \<open>A value of type \<^verbatim>\<open>time.Time\<close>, the second case of the type switch.\<close>

definition isTime :: "fieldval \<Rightarrow> bool" where
  "isTime val = (case val of V_Time _ \<Rightarrow> True | _ \<Rightarrow> False)"

text \<open>
  The tags of the parsing theorem: a comma-separated list of \<^verbatim>\<open>key=value\<close> parts, one for
  \<^verbatim>\<open>order\<close>, one for \<^verbatim>\<open>heading\<close> and at most one for \<^verbatim>\<open>format\<close>, in any arrangement,
  whose values stay within the character classes of the three patterns. That is a
  restriction: a value with any other character is not read as written. The order is a
  decimal number that fits an \<^verbatim>\<open>int\<close>. The heading is written plain or in double quotes:
  blanks, then a text that neither starts nor ends with a blank, then blanks, all of the
  characters of the class of its alternative. The format is a non-empty text of the
  characters of its class.
\<close>

fun joinComma :: "string list \<Rightarrow> string" where
  "joinComma [] = []"
| "joinComma [p] = p"
| "joinComma (p # q # ps) = p @ '','' @ joinComma (q # ps)"

definition validOrder :: "string \<Rightarrow> bool" where
  "validOrder N = (N \<noteq> [] \<and> list_all (\<lambda>ch. ch \<in> set digits) N \<and> decimal N < 2 ^ 63)"

definition quotedHeading :: "string \<Rightarrow> bool" where
  "quotedHeading H =
     (3 \<le> length H \<and> hd H = dquote \<and> last H = dquote \<and>
      list_all (\<lambda>ch. ch \<in> set quotedHeadingClass) (butlast (tl H)))"

definition plainHeading :: "string \<Rightarrow> bool" where
  "plainHeading H = (H \<noteq> [] \<and> list_all (\<lambda>ch. ch \<in> set plainHeadingClass) H)"

definition headingText :: "bool \<Rightarrow> string \<Rightarrow> string \<Rightarrow> string \<Rightarrow> string" where
  "headingText quoted l c r =
     (if quoted then [dquote] @ l @ c @ r @ [dquote] else l @ c @ r)"

definition headingInClass :: "bool \<Rightarrow> string \<Rightarrow> string \<Rightarrow> string \<Rightarrow> bool" where
  "headingInClass quoted l c r =
     (c \<noteq> [] \<and> hd c \<notin> set spaceChars \<and> last c \<notin> set spaceChars \<and>
      list_all (\<lambda>ch. ch \<in> set spaceChars) l \<and> list_all (\<lambda>ch. ch \<in> set spaceChars) r \<and>
      list_all (\<lambda>ch. ch \<in> set (if quoted then quotedHeadingClass else plainHeadingClass))
        (l @ c @ r))"

definition formatInClass :: "string option \<Rightarrow> bool" where
  "formatInClass F =
     (case F of None \<Rightarrow> True | Some F' \<Rightarrow> F' \<noteq> [] \<and> list_all (\<lambda>ch. ch \<in> set formatClass) F')"

definition tagParts :: "string \<Rightarrow> string \<Rightarrow> string option \<Rightarrow> string list" where
  "tagParts N H F =
     [''order='' @ N, ''heading='' @ H] @ (case F of None \<Rightarrow> [] | Some F' \<Rightarrow> [''format='' @ F'])"

text \<open>
  A field is annotated when it has a tag other than \<^verbatim>\<open>-\<close>: these are the fields that
  become columns. The annotated values of an item are the values of its annotated fields,
  in declaration order.
\<close>

definition annotated :: "structField \<Rightarrow> bool" where
  "annotated f = (xls f \<noteq> [] \<and> xls f \<noteq> ''-'')"

definition annotatedValues :: "structField list \<Rightarrow> fieldval list \<Rightarrow> fieldval list" where
  "annotatedValues fs item = map snd (filter (\<lambda>(f, v). annotated f) (zip fs item))"

section \<open>Finding a key in a tag\<close>

subsection \<open>Positions where a pattern cannot match\<close>

lemma take_eq_iff_append: "take (length l) s = l \<longleftrightarrow> (\<exists>t. s = l @ t)"
  by (metis append_eq_conv_conj append_take_drop_id)

lemma FindStringSubmatch_skip:
  "(\<And>p. p < length pre \<Longrightarrow> rmatch r (drop p pre @ rest) Map.empty = []) \<Longrightarrow>
   FindStringSubmatch r (pre @ rest) = FindStringSubmatch r rest"
proof (induction pre)
  case Nil
  then show ?case by simp
next
  case (Cons x pre)
  have "rmatch r (x # pre @ rest) Map.empty = []"
    using Cons.prems [of 0] by simp
  moreover have "FindStringSubmatch r (pre @ rest) = FindStringSubmatch r rest"
  proof (rule Cons.IH)
    fix p assume "p < length pre"
    then show "rmatch r (drop p pre @ rest) Map.empty = []"
      using Cons.prems [of "Suc p"] by simp
  qed
  ultimately show ?case by simp
qed

lemma eq_split1:
  assumes "w @ CHR ''='' # X = body @ CHR ''='' # t" "CHR ''='' \<notin> set w" "CHR ''='' \<notin> set body"
  shows "w = body"
  using assms
proof (induction w arbitrary: body)
  case Nil
  then show ?case by (cases body) auto
next
  case (Cons a w)
  then show ?case by (cases body) auto
qed

lemma eq_split2:
  assumes "w @ CHR '','' # X = body @ CHR ''='' # t" "CHR ''='' \<notin> set w" "CHR '','' \<notin> set body"
  shows False
  using assms
proof (induction w arbitrary: body)
  case Nil
  then show ?case by (cases body) auto
next
  case (Cons a w)
  then show ?case by (cases body) auto
qed


text \<open>
  The text \<open>body=\<close> does not occur at a position inside a part \<open>k'=V\<close> (nor at the comma
  after it) when \<open>V\<close> has no equals sign and \<open>body\<close> is not a suffix of the key \<open>k'\<close>.
\<close>

lemma no_key_in_part:
  assumes k': "CHR ''='' \<notin> set k'" and V: "CHR ''='' \<notin> set V"
    and b1: "CHR ''='' \<notin> set body" and b2: "CHR '','' \<notin> set body"
    and suf: "\<And>p. drop p k' \<noteq> body"
    and tail: "tail = [] \<or> (\<exists>rest. tail = CHR '','' # rest)"
    and p: "p \<le> length k' + 1 + length V"
  shows "take (length (body @ ''='')) (drop p (k' @ ''='' @ V @ tail)) \<noteq> body @ ''=''"
proof
  assume "take (length (body @ ''='')) (drop p (k' @ ''='' @ V @ tail)) = body @ ''=''"
  then obtain t where t: "drop p (k' @ ''='' @ V @ tail) = (body @ ''='') @ t"
    unfolding take_eq_iff_append by blast
  show False
  proof (cases "p \<le> length k'")
    case True
    define w where "w = drop p k'"
    have w: "CHR ''='' \<notin> set w" using k' unfolding w_def by (meson in_set_dropD)
    have "w @ CHR ''='' # V @ tail = body @ CHR ''='' # t"
      using t True by (simp add: w_def)
    then have "w = body"
      using w b1 by (rule eq_split1)
    then show False using suf [of p] by (simp add: w_def)
  next
    case False
    define q where "q = p - Suc (length k')"
    have q: "p = Suc (length k') + q" "q \<le> length V"
      using False p by (simp_all add: q_def)
    define w where "w = drop q V"
    have w: "CHR ''='' \<notin> set w" using V unfolding w_def by (meson in_set_dropD)
    have eq: "w @ tail = body @ CHR ''='' # t"
      using t q by (simp add: w_def)
    from tail show False
    proof
      assume "tail = []"
      then have "CHR ''='' \<in> set w" using eq by (metis append_Nil2 in_set_conv_decomp)
      then show False using w by simp
    next
      assume "\<exists>rest. tail = CHR '','' # rest"
      then obtain rest where "tail = CHR '','' # rest" by blast
      then show False
        using eq w b2 eq_split2 by blast
    qed
  qed
qed

text \<open>The search therefore passes over a part with another key.\<close>

lemma skip_part:
  assumes nomatch: "\<And>s c. s \<noteq> [] \<Longrightarrow> take (length (body @ ''='')) s \<noteq> body @ ''='' \<Longrightarrow> rmatch r s c = []"
    and k': "CHR ''='' \<notin> set k'" and V: "CHR ''='' \<notin> set V"
    and b1: "CHR ''='' \<notin> set body" and b2: "CHR '','' \<notin> set body"
    and suf: "\<And>p. drop p k' \<noteq> body"
  shows "FindStringSubmatch r ((k' @ ''='' @ V) @ '','' @ rest) = FindStringSubmatch r rest"
proof -
  define A where "A = (k' @ ''='' @ V) @ '',''"
  have lenA: "length A = length k' + 1 + length V + 1" by (simp add: A_def)
  have "FindStringSubmatch r (A @ rest) = FindStringSubmatch r rest"
  proof (rule FindStringSubmatch_skip)
    fix p assume p: "p < length A"
    have ne: "drop p A @ rest \<noteq> []" using p by simp
    have "drop p A @ rest = drop p (A @ rest)" using p by simp
    also have "A @ rest = k' @ ''='' @ V @ ('','' @ rest)" by (simp add: A_def)
    finally have eq: "drop p A @ rest = drop p (k' @ ''='' @ V @ ('','' @ rest))" .
    have tl: "'','' @ rest = [] \<or> (\<exists>rest'. '','' @ rest = CHR '','' # rest')" by simp
    have p': "p \<le> length k' + 1 + length V" using p lenA by linarith
    have "take (length (body @ ''='')) (drop p (k' @ ''='' @ V @ ('','' @ rest))) \<noteq> body @ ''=''"
      by (rule no_key_in_part [OF k' V b1 b2 suf tl p'])
    then show "rmatch r (drop p A @ rest) Map.empty = []"
      using nomatch ne eq by metis
  qed
  then show ?thesis by (simp add: A_def)
qed

lemma skip_last_part:
  assumes nomatch: "\<And>s c. s \<noteq> [] \<Longrightarrow> take (length (body @ ''='')) s \<noteq> body @ ''='' \<Longrightarrow> rmatch r s c = []"
    and k': "CHR ''='' \<notin> set k'" and V: "CHR ''='' \<notin> set V"
    and b1: "CHR ''='' \<notin> set body" and b2: "CHR '','' \<notin> set body"
    and suf: "\<And>p. drop p k' \<noteq> body"
  shows "FindStringSubmatch r (k' @ ''='' @ V) = FindStringSubmatch r []"
proof -
  define A where "A = k' @ ''='' @ V"
  have lenA: "length A = length k' + 1 + length V" by (simp add: A_def)
  have "FindStringSubmatch r (A @ []) = FindStringSubmatch r []"
  proof (rule FindStringSubmatch_skip)
    fix p assume p: "p < length A"
    have ne: "drop p A @ [] \<noteq> []" using p by simp
    have eq: "drop p A @ [] = drop p (k' @ ''='' @ V @ [])" by (simp add: A_def)
    have tl: "([]::string) = [] \<or> (\<exists>rest'. [] = CHR '','' # rest')" by simp
    have p': "p \<le> length k' + 1 + length V" using p lenA by linarith
    have "take (length (body @ ''='')) (drop p (k' @ ''='' @ V @ [])) \<noteq> body @ ''=''"
      by (rule no_key_in_part [OF k' V b1 b2 suf tl p'])
    then show "rmatch r (drop p A @ []) Map.empty = []"
      using nomatch ne eq by metis
  qed
  then show ?thesis by (simp add: A_def)
qed

subsection \<open>The first match at a position\<close>

lemma orderRegex_nomatch:
  "s \<noteq> [] \<Longrightarrow> take (length (''order'' @ ''='')) s \<noteq> ''order'' @ ''='' \<Longrightarrow> rmatch orderRegex s c = []"
  by (simp add: orderRegex_def)

lemma headingRegex_nomatch:
  "s \<noteq> [] \<Longrightarrow> take (length (''heading'' @ ''='')) s \<noteq> ''heading'' @ ''='' \<Longrightarrow> rmatch headingRegex s c = []"
  by (simp add: headingRegex_def)

lemma formatRegex_nomatch:
  "s \<noteq> [] \<Longrightarrow> take (length (''format'' @ ''='')) s \<noteq> ''format'' @ ''='' \<Longrightarrow> rmatch formatRegex s c = []"
  by (simp add: formatRegex_def)

lemma plus_head:
  assumes "N \<noteq> []" "list_all (\<lambda>ch. ch \<in> set cs) N" "tail = [] \<or> hd tail \<notin> set cs"
  shows "\<exists>ms. rmatch (Plus cs) (N @ tail) c = (tail, c) # ms"
proof -
  have "takeWhile (\<lambda>x. x \<in> set cs) tail = []"
    using assms(3) by (cases tail) auto
  then have tw: "takeWhile (\<lambda>x. x \<in> set cs) (N @ tail) = N"
    using assms(2) by (simp add: takeWhile_append2 list_all_iff)
  have "[1 ..< Suc (length N)] = [1 ..< length N] @ [length N]"
    using assms(1) by (simp add: Suc_leI)
  then have "rev [1 ..< Suc (length N)] = length N # rev [1 ..< length N]"
    by simp
  then show ?thesis by (simp add: tw)
qed

lemma seq_head:
  assumes "rmatch r1 s c = (s1, c1) # m1" "rmatch r2 s1 c1 = x # m2"
  shows "\<exists>ms. rmatch (Seq r1 r2) s c = x # ms"
  using assms by simp

lemma end_head:
  assumes "tail = [] \<or> (\<exists>rest. tail = CHR '','' # rest)"
  shows "\<exists>rest ms. rmatch (Alt (Lit '','') EndText) tail c = (rest, c) # ms"
  using assms by auto

lemma opt_head:
  "\<exists>rest ms. rmatch (Opt (Lit '','')) tail c = (rest, c) # ms"
  by simp

lemma alt_head_left:
  assumes "rmatch r1 s c = x # m"
  shows "\<exists>ms. rmatch (Alt r1 r2) s c = x # ms"
  using assms by simp

lemma alt_head_right:
  assumes "rmatch r1 s c = []" "rmatch r2 s c = x # m"
  shows "\<exists>ms. rmatch (Alt r1 r2) s c = x # ms"
  using assms by simp

lemma seq_lit_head:
  assumes "rmatch r s c = x # m"
  shows "\<exists>ms. rmatch (Seq (Lit l) r) (l @ s) c = x # ms"
  using assms by simp

lemma seq_lit_fail:
  assumes "take (length l) s \<noteq> l"
  shows "rmatch (Seq (Lit l) r) s c = []"
  using assms by simp

lemma group_take:
  assumes "rmatch r (N @ tail) c = (tail, c') # m"
  shows "\<exists>ms. rmatch (Group n r) (N @ tail) c = (tail, c'(n \<mapsto> N)) # ms"
  using assms by simp

lemma keyed_group_match:
  assumes g: "rmatch g (N @ tail) c = (tail, c) # m"
    and r2: "\<And>c. \<exists>rest ms. rmatch r2 tail c = (rest, c) # ms"
  shows "\<exists>rest ms. rmatch (Seq (Lit lit) (Seq (Group n g) r2)) (lit @ N @ tail) c
           = (rest, c(n \<mapsto> N)) # ms"
proof -
  obtain m2 where g': "rmatch (Group n g) (N @ tail) c = (tail, c(n \<mapsto> N)) # m2"
    using group_take [OF g] by blast
  obtain rest m3 where "rmatch r2 tail (c(n \<mapsto> N)) = (rest, c(n \<mapsto> N)) # m3"
    using r2 by blast
  with g' obtain m4 where
    "rmatch (Seq (Group n g) r2) (N @ tail) c = (rest, c(n \<mapsto> N)) # m4"
    using seq_head by blast
  then show ?thesis using seq_lit_head by blast
qed

lemma quoted_alt:
  assumes B: "B \<noteq> []" "list_all (\<lambda>ch. ch \<in> set qc) B" "q \<notin> set qc"
  shows "\<exists>ms. rmatch (Alt (Seq (Lit [q]) (Seq (Plus qc) (Lit [q]))) (Plus pc))
                 ((q # B @ [q]) @ tail) c = (tail, c) # ms"
proof -
  have "q # tail = [] \<or> hd (q # tail) \<notin> set qc" using B(3) by simp
  then obtain m1 where "rmatch (Plus qc) (B @ q # tail) c = (q # tail, c) # m1"
    using plus_head [OF B(1,2)] by blast
  moreover have "rmatch (Lit [q]) (q # tail) c = (tail, c) # []" by simp
  ultimately obtain m2 where "rmatch (Seq (Plus qc) (Lit [q])) (B @ q # tail) c = (tail, c) # m2"
    using seq_head by blast
  then obtain m3 where
    "rmatch (Seq (Lit [q]) (Seq (Plus qc) (Lit [q]))) ([q] @ B @ q # tail) c = (tail, c) # m3"
    using seq_lit_head by blast
  then obtain m4 where
    "rmatch (Alt (Seq (Lit [q]) (Seq (Plus qc) (Lit [q]))) (Plus pc)) ([q] @ B @ q # tail) c
       = (tail, c) # m4"
    using alt_head_left by blast
  then show ?thesis by simp
qed

lemma plain_alt:
  assumes N: "N \<noteq> []" "list_all (\<lambda>ch. ch \<in> set pc) N" "tail = [] \<or> hd tail \<notin> set pc"
    and q: "q \<notin> set pc"
  shows "\<exists>ms. rmatch (Alt (Seq (Lit [q]) (Seq (Plus qc) (Lit [q]))) (Plus pc)) (N @ tail) c
           = (tail, c) # ms"
proof -
  have "hd N \<noteq> q" using N(1,2) q by (cases N) auto
  then have "take (length [q]) (N @ tail) \<noteq> [q]"
    using N(1) by (cases N) auto
  then have "rmatch (Seq (Lit [q]) (Seq (Plus qc) (Lit [q]))) (N @ tail) c = []"
    by (rule seq_lit_fail)
  moreover obtain m1 where "rmatch (Plus pc) (N @ tail) c = (tail, c) # m1"
    using plus_head [OF N] by blast
  ultimately show ?thesis using alt_head_right by blast
qed

lemma FindStringSubmatch_head:
  assumes "rmatch r s Map.empty = (rest, c) # ms"
  shows "FindStringSubmatch r s = Some c"
  using assms by (cases s) simp_all

subsection \<open>The three patterns at their key\<close>

lemma comma_classes:
  "CHR '','' \<notin> set orderClass" "CHR '','' \<notin> set plainHeadingClass" "CHR '','' \<notin> set formatClass"
  by (simp_all add: orderClass_def plainHeadingClass_def formatClass_def digits_def wordChars_def
      spaceChars_def backslash_def)

lemma dquote_classes:
  "dquote \<notin> set quotedHeadingClass" "dquote \<notin> set plainHeadingClass"
  by (simp_all add: quotedHeadingClass_def plainHeadingClass_def dquote_def wordChars_def
      spaceChars_def backslash_def)

lemma eq_classes:
  "CHR ''='' \<notin> set digits" "CHR ''='' \<notin> set quotedHeadingClass"
  "CHR ''='' \<notin> set plainHeadingClass" "CHR ''='' \<notin> set formatClass" "CHR ''='' \<noteq> dquote"
  by (simp_all add: quotedHeadingClass_def plainHeadingClass_def formatClass_def digits_def
      wordChars_def spaceChars_def backslash_def dquote_def)

lemma digits_orderClass: "ch \<in> set digits \<Longrightarrow> ch \<in> set orderClass"
  by (simp add: orderClass_def)

lemma tail_not_in:
  assumes "tail = [] \<or> (\<exists>rest. tail = CHR '','' # rest)" "CHR '','' \<notin> set cs"
  shows "tail = [] \<or> hd tail \<notin> set cs"
  using assms by auto

lemma order_at:
  assumes N: "N \<noteq> []" "list_all (\<lambda>ch. ch \<in> set digits) N"
    and tail: "tail = [] \<or> (\<exists>rest. tail = CHR '','' # rest)"
  shows "FindStringSubmatch orderRegex (''order='' @ N @ tail) = Some [''order'' \<mapsto> N]"
proof -
  have cls: "list_all (\<lambda>ch. ch \<in> set orderClass) N"
    using N(2) digits_orderClass by (simp add: list_all_iff)
  obtain m where "rmatch (Plus orderClass) (N @ tail) Map.empty = (tail, Map.empty) # m"
    using plus_head [OF N(1) cls tail_not_in [OF tail comma_classes(1)]] by blast
  then obtain rest ms where
    "rmatch (Seq (Lit ''order='') (Seq (Group ''order'' (Plus orderClass)) (Opt (Lit '','')))) 
       (''order='' @ N @ tail) Map.empty = (rest, [''order'' \<mapsto> N]) # ms"
    using keyed_group_match [where ?r2.0 = "Opt (Lit '','')", OF _ opt_head] by blast
  then obtain ms' where "rmatch orderRegex (''order='' @ N @ tail) Map.empty = (rest, [''order'' \<mapsto> N]) # ms'"
    unfolding orderRegex_def using alt_head_left by blast
  then show ?thesis by (rule FindStringSubmatch_head)
qed

lemma format_at:
  assumes N: "N \<noteq> []" "list_all (\<lambda>ch. ch \<in> set formatClass) N"
    and tail: "tail = [] \<or> (\<exists>rest. tail = CHR '','' # rest)"
  shows "FindStringSubmatch formatRegex (''format='' @ N @ tail) = Some [''format'' \<mapsto> N]"
proof -
  obtain m where "rmatch (Plus formatClass) (N @ tail) Map.empty = (tail, Map.empty) # m"
    using plus_head [OF N tail_not_in [OF tail comma_classes(3)]] by blast
  then obtain rest ms where
    "rmatch (Seq (Lit ''format='') (Seq (Group ''format'' (Plus formatClass)) (Alt (Lit '','') EndText)))
       (''format='' @ N @ tail) Map.empty = (rest, [''format'' \<mapsto> N]) # ms"
    using keyed_group_match [where ?r2.0 = "Alt (Lit '','') EndText", OF _ end_head [OF tail]] by blast
  then show ?thesis unfolding formatRegex_def [symmetric] by (rule FindStringSubmatch_head)
qed

lemma quotedHeading_decomp:
  assumes "quotedHeading H"
  shows "\<exists>B. H = dquote # B @ [dquote] \<and> B \<noteq> [] \<and> list_all (\<lambda>ch. ch \<in> set quotedHeadingClass) B"
proof -
  define B where "B = butlast (tl H)"
  have "tl H \<noteq> []" using assms by (cases H) (auto simp: quotedHeading_def)
  moreover have "last (tl H) = dquote"
    using assms \<open>tl H \<noteq> []\<close> by (cases H) (auto simp: quotedHeading_def)
  ultimately have "tl H = B @ [dquote]"
    unfolding B_def by (metis append_butlast_last_id)
  moreover have "H = dquote # tl H" using assms by (cases H) (auto simp: quotedHeading_def)
  ultimately have Heq: "H = dquote # B @ [dquote]" by simp
  have "B \<noteq> []" using assms Heq by (auto simp: quotedHeading_def)
  moreover have "list_all (\<lambda>ch. ch \<in> set quotedHeadingClass) B"
    using assms by (simp add: quotedHeading_def B_def)
  ultimately show ?thesis using Heq by blast
qed

lemma heading_at:
  assumes H: "quotedHeading H \<or> plainHeading H"
    and tail: "tail = [] \<or> (\<exists>rest. tail = CHR '','' # rest)"
  shows "FindStringSubmatch headingRegex (''heading='' @ H @ tail) = Some [''heading'' \<mapsto> H]"
proof -
  have "\<exists>m. rmatch (Alt (Seq (Lit [dquote]) (Seq (Plus quotedHeadingClass) (Lit [dquote])))
                    (Plus plainHeadingClass)) (H @ tail) Map.empty = (tail, Map.empty) # m"
    using H
  proof
    assume "quotedHeading H"
    then obtain B where "H = dquote # B @ [dquote]" "B \<noteq> []"
      "list_all (\<lambda>ch. ch \<in> set quotedHeadingClass) B"
      using quotedHeading_decomp by blast
    then show ?thesis
      using quoted_alt [OF _ _ dquote_classes(1), of B] by blast
  next
    assume p: "plainHeading H"
    then show ?thesis
      using plain_alt [OF _ _ tail_not_in [OF tail comma_classes(2)] dquote_classes(2), of H]
      by (simp add: plainHeading_def)
  qed
  then obtain rest ms where
    "rmatch (Seq (Lit ''heading='')
       (Seq (Group ''heading''
               (Alt (Seq (Lit [dquote]) (Seq (Plus quotedHeadingClass) (Lit [dquote])))
                    (Plus plainHeadingClass)))
            (Alt (Lit '','') EndText)))
       (''heading='' @ H @ tail) Map.empty = (rest, [''heading'' \<mapsto> H]) # ms"
    using keyed_group_match [where ?r2.0 = "Alt (Lit '','') EndText", OF _ end_head [OF tail]] by blast
  then show ?thesis unfolding headingRegex_def [symmetric] by (rule FindStringSubmatch_head)
qed

lemma capture_order:
  "FindStringSubmatch orderRegex s = Some c \<Longrightarrow>
   index_str (findStringSubmatchMap orderRegex s) ''order'' = index_str c ''order''"
  by (simp add: findStringSubmatchMap_def orderRegex_def index_str_def)

lemma capture_heading:
  "FindStringSubmatch headingRegex s = Some c \<Longrightarrow>
   index_str (findStringSubmatchMap headingRegex s) ''heading'' = index_str c ''heading''"
  by (simp add: findStringSubmatchMap_def headingRegex_def index_str_def)

lemma capture_format:
  "FindStringSubmatch formatRegex s = Some c \<Longrightarrow>
   index_str (findStringSubmatchMap formatRegex s) ''format'' = index_str c ''format''"
  by (simp add: findStringSubmatchMap_def formatRegex_def index_str_def)

lemma capture_none:
  "FindStringSubmatch r s = None \<Longrightarrow> index_str (findStringSubmatchMap r s) n = []"
  by (simp add: findStringSubmatchMap_def index_str_def)

lemma Atoi_valid: "validOrder N \<Longrightarrow> Atoi N = (decimal N, None)"
proof -
  assume v: "validOrder N"
  then have "hd N \<in> set digits" by (cases N) (auto simp: validOrder_def)
  then have sign: "hd N \<noteq> CHR ''-''" "hd N \<noteq> CHR ''+''" by (auto simp: digits_def)
  have run: "takeWhile (\<lambda>ch. ch \<in> set digits) N = N"
    using v by (simp add: validOrder_def list_all_iff)
  have small: "\<not> (2::int) ^ 64 \<le> decimal N" "\<not> (2::int) ^ 63 \<le> decimal N" "N \<noteq> []"
    using v by (simp_all add: validOrder_def)
  show ?thesis
    unfolding Atoi_def Let_def by (simp only: sign run small simp_thms if_False if_True)
qed

subsection \<open>Tags made of parts\<close>

lemma joinComma_Cons: "ps \<noteq> [] \<Longrightarrow> joinComma (p # ps) = p @ '','' @ joinComma ps"
  by (cases ps) simp_all

lemma joinComma_tail:
  "\<exists>tail. joinComma (p # ps) = p @ tail \<and> (tail = [] \<or> (\<exists>rest. tail = CHR '','' # rest))"
  by (cases ps) simp_all

lemma find_skip_parts:
  assumes nomatch: "\<And>s c. s \<noteq> [] \<Longrightarrow> take (length (body @ ''='')) s \<noteq> body @ ''='' \<Longrightarrow> rmatch r s c = []"
    and b1: "CHR ''='' \<notin> set body" and b2: "CHR '','' \<notin> set body"
    and xs: "\<forall>x\<in>set xs. \<exists>k' V. x = k' @ ''='' @ V \<and> CHR ''='' \<notin> set k' \<and> CHR ''='' \<notin> set V
               \<and> (\<forall>p. drop p k' \<noteq> body)"
  shows "FindStringSubmatch r (joinComma (xs @ y # ys)) = FindStringSubmatch r (joinComma (y # ys))"
  using xs
proof (induction xs)
  case Nil
  then show ?case by simp
next
  case (Cons x xs)
  obtain k' V where x: "x = k' @ ''='' @ V" "CHR ''='' \<notin> set k'" "CHR ''='' \<notin> set V"
    "\<And>p. drop p k' \<noteq> body"
    using Cons.prems by auto
  have "joinComma ((x # xs) @ y # ys) = (k' @ ''='' @ V) @ '','' @ joinComma (xs @ y # ys)"
    using joinComma_Cons [of "xs @ y # ys" x] x(1) by simp
  then have "FindStringSubmatch r (joinComma ((x # xs) @ y # ys))
      = FindStringSubmatch r (joinComma (xs @ y # ys))"
    using skip_part [OF nomatch x(2,3) b1 b2 x(4)] by simp
  then show ?case using Cons by simp
qed

lemma find_skip_all:
  assumes nomatch: "\<And>s c. s \<noteq> [] \<Longrightarrow> take (length (body @ ''='')) s \<noteq> body @ ''='' \<Longrightarrow> rmatch r s c = []"
    and b1: "CHR ''='' \<notin> set body" and b2: "CHR '','' \<notin> set body"
    and xs: "\<forall>x\<in>set xs. \<exists>k' V. x = k' @ ''='' @ V \<and> CHR ''='' \<notin> set k' \<and> CHR ''='' \<notin> set V
               \<and> (\<forall>p. drop p k' \<noteq> body)"
  shows "FindStringSubmatch r (joinComma xs) = FindStringSubmatch r []"
  using xs
proof (induction xs rule: joinComma.induct)
  case 1
  then show ?case by simp
next
  case (2 x)
  obtain k' V where x: "x = k' @ ''='' @ V" "CHR ''='' \<notin> set k'" "CHR ''='' \<notin> set V"
    "\<And>p. drop p k' \<noteq> body"
    using 2 by auto
  show ?case using skip_last_part [OF nomatch x(2,3) b1 b2 x(4)] x(1) by simp
next
  case (3 x q ps)
  obtain k' V where x: "x = k' @ ''='' @ V" "CHR ''='' \<notin> set k'" "CHR ''='' \<notin> set V"
    "\<And>p. drop p k' \<noteq> body"
    using 3(2) by auto
  have "FindStringSubmatch r (joinComma (x # q # ps)) = FindStringSubmatch r (joinComma (q # ps))"
    using skip_part [OF nomatch x(2,3) b1 b2 x(4)] x(1) by simp
  then show ?case using 3 by simp
qed

lemma key_suffixes:
  "drop p ''heading'' \<noteq> ''order''" "drop p ''format'' \<noteq> ''order''"
  "drop p ''order'' \<noteq> ''heading''" "drop p ''format'' \<noteq> ''heading''"
  "drop p ''order'' \<noteq> ''format''" "drop p ''heading'' \<noteq> ''format''"
proof -
  show "drop p ''heading'' \<noteq> ''order''"
  proof
    assume a: "drop p ''heading'' = ''order''"
    then have "length (drop p ''heading'') = length ''order''" by simp
    then have "p = 2" by simp
    with a show False by simp
  qed
  show "drop p ''format'' \<noteq> ''order''"
  proof
    assume a: "drop p ''format'' = ''order''"
    then have "length (drop p ''format'') = length ''order''" by simp
    then have "p = 1" by simp
    with a show False by simp
  qed
  show "drop p ''order'' \<noteq> ''heading''"
  proof
    assume a: "drop p ''order'' = ''heading''"
    then have "length (drop p ''order'') = length ''heading''" by simp
    then show False by simp
  qed
  show "drop p ''format'' \<noteq> ''heading''"
  proof
    assume a: "drop p ''format'' = ''heading''"
    then have "length (drop p ''format'') = length ''heading''" by simp
    then show False by simp
  qed
  show "drop p ''order'' \<noteq> ''format''"
  proof
    assume a: "drop p ''order'' = ''format''"
    then have "length (drop p ''order'') = length ''format''" by simp
    then show False by simp
  qed
  show "drop p ''heading'' \<noteq> ''format''"
  proof
    assume a: "drop p ''heading'' = ''format''"
    then have "length (drop p ''heading'') = length ''format''" by simp
    then have "p = 1" by simp
    with a show False by simp
  qed
qed

lemma no_eq_values:
  "validOrder N \<Longrightarrow> CHR ''='' \<notin> set N"
  "quotedHeading H \<or> plainHeading H \<Longrightarrow> CHR ''='' \<notin> set H"
  "formatInClass (Some F') \<Longrightarrow> CHR ''='' \<notin> set F'"
proof -
  show "validOrder N \<Longrightarrow> CHR ''='' \<notin> set N"
    using eq_classes(1) by (auto simp: validOrder_def list_all_iff)
  show "formatInClass (Some F') \<Longrightarrow> CHR ''='' \<notin> set F'"
    using eq_classes(4) by (auto simp: formatInClass_def list_all_iff)
  show "quotedHeading H \<or> plainHeading H \<Longrightarrow> CHR ''='' \<notin> set H"
  proof (erule disjE)
    assume "quotedHeading H"
    then obtain B where "H = dquote # B @ [dquote]" "list_all (\<lambda>ch. ch \<in> set quotedHeadingClass) B"
      using quotedHeading_decomp by blast
    then show ?thesis using eq_classes(2,5) by (auto simp: list_all_iff)
  next
    assume "plainHeading H"
    then show ?thesis using eq_classes(3) by (auto simp: plainHeading_def list_all_iff)
  qed
qed

lemma parts_order:
  assumes N: "validOrder N" and H: "quotedHeading H \<or> plainHeading H" and F: "formatInClass F"
    and ps: "set ps = set (tagParts N H F)"
  shows "orderFromTag (joinComma ps) = (decimal N, None)"
proof -
  have "''order='' @ N \<in> set ps" using ps by (simp add: tagParts_def)
  then obtain xs ys where split: "ps = xs @ (''order='' @ N) # ys" "''order='' @ N \<notin> set xs"
    by (meson split_list_first)
  have skip: "\<forall>x\<in>set xs. \<exists>k' V. x = k' @ ''='' @ V \<and> CHR ''='' \<notin> set k' \<and> CHR ''='' \<notin> set V
               \<and> (\<forall>p. drop p k' \<noteq> ''order'')"
  proof
    fix x assume x: "x \<in> set xs"
    then have "x \<in> set (tagParts N H F)" "x \<noteq> ''order='' @ N" using split ps by auto
    then consider "x = ''heading'' @ ''='' @ H" | F' where "F = Some F'" "x = ''format'' @ ''='' @ F'"
      by (auto simp: tagParts_def split: option.splits)
    then show "\<exists>k' V. x = k' @ ''='' @ V \<and> CHR ''='' \<notin> set k' \<and> CHR ''='' \<notin> set V
               \<and> (\<forall>p. drop p k' \<noteq> ''order'')"
    proof cases
      case 1
      have "CHR ''='' \<notin> set ''heading''" by simp
      then show ?thesis using 1 no_eq_values(2) [OF H] key_suffixes(1) by blast
    next
      case 2
      have "CHR ''='' \<notin> set ''format''" by simp
      then show ?thesis using 2 no_eq_values(3) F key_suffixes(2) by blast
    qed
  qed
  obtain tail where tail: "joinComma ((''order='' @ N) # ys) = (''order='' @ N) @ tail"
    "tail = [] \<or> (\<exists>rest. tail = CHR '','' # rest)"
    using joinComma_tail by blast
  have "FindStringSubmatch orderRegex (joinComma ps)
      = FindStringSubmatch orderRegex (joinComma ((''order='' @ N) # ys))"
    unfolding split(1) by (rule find_skip_parts [OF orderRegex_nomatch _ _ skip]) simp_all
  also have "\<dots> = Some [''order'' \<mapsto> N]"
    using order_at [OF _ _ tail(2), of N] N tail(1) by (simp add: validOrder_def)
  finally have "index_str (findStringSubmatchMap orderRegex (joinComma ps)) ''order'' = N"
    using capture_order by (simp add: index_str_def)
  then show ?thesis using Atoi_valid [OF N] by (simp add: orderFromTag_def)
qed


lemma parts_heading:
  assumes N: "validOrder N" and H: "quotedHeading H \<or> plainHeading H" and F: "formatInClass F"
    and ps: "set ps = set (tagParts N H F)"
  shows "index_str (findStringSubmatchMap headingRegex (joinComma ps)) ''heading'' = H"
proof -
  have "''heading='' @ H \<in> set ps" using ps by (simp add: tagParts_def)
  then obtain xs ys where split: "ps = xs @ (''heading='' @ H) # ys" "''heading='' @ H \<notin> set xs"
    by (meson split_list_first)
  have skip: "\<forall>x\<in>set xs. \<exists>k' V. x = k' @ ''='' @ V \<and> CHR ''='' \<notin> set k' \<and> CHR ''='' \<notin> set V
               \<and> (\<forall>p. drop p k' \<noteq> ''heading'')"
  proof
    fix x assume x: "x \<in> set xs"
    then have "x \<in> set (tagParts N H F)" "x \<noteq> ''heading='' @ H" using split ps by auto
    then consider "x = ''order'' @ ''='' @ N" | F' where "F = Some F'" "x = ''format'' @ ''='' @ F'"
      by (auto simp: tagParts_def split: option.splits)
    then show "\<exists>k' V. x = k' @ ''='' @ V \<and> CHR ''='' \<notin> set k' \<and> CHR ''='' \<notin> set V
               \<and> (\<forall>p. drop p k' \<noteq> ''heading'')"
    proof cases
      case 1
      have "CHR ''='' \<notin> set ''order''" by simp
      then show ?thesis using 1 no_eq_values(1) [OF N] key_suffixes(3) by blast
    next
      case 2
      have "CHR ''='' \<notin> set ''format''" by simp
      then show ?thesis using 2 no_eq_values(3) F key_suffixes(4) by blast
    qed
  qed
  obtain tail where tail: "joinComma ((''heading='' @ H) # ys) = (''heading='' @ H) @ tail"
    "tail = [] \<or> (\<exists>rest. tail = CHR '','' # rest)"
    using joinComma_tail by blast
  have "FindStringSubmatch headingRegex (joinComma ps)
      = FindStringSubmatch headingRegex (joinComma ((''heading='' @ H) # ys))"
    unfolding split(1) by (rule find_skip_parts [OF headingRegex_nomatch _ _ skip]) simp_all
  also have "\<dots> = Some [''heading'' \<mapsto> H]"
    using heading_at [OF H tail(2)] tail(1) by simp
  finally show ?thesis
    using capture_heading by (simp add: index_str_def)
qed

lemma parts_format:
  assumes N: "validOrder N" and H: "quotedHeading H \<or> plainHeading H" and F: "formatInClass F"
    and ps: "set ps = set (tagParts N H F)"
  shows "formatFromTag (joinComma ps) = (case F of None \<Rightarrow> [] | Some F' \<Rightarrow> F')"
proof (cases F)
  case None
  have skip: "\<forall>x\<in>set ps. \<exists>k' V. x = k' @ ''='' @ V \<and> CHR ''='' \<notin> set k' \<and> CHR ''='' \<notin> set V
               \<and> (\<forall>p. drop p k' \<noteq> ''format'')"
  proof
    fix x assume x: "x \<in> set ps"
    then consider "x = ''order'' @ ''='' @ N" | "x = ''heading'' @ ''='' @ H"
      using ps None by (auto simp: tagParts_def)
    then show "\<exists>k' V. x = k' @ ''='' @ V \<and> CHR ''='' \<notin> set k' \<and> CHR ''='' \<notin> set V
               \<and> (\<forall>p. drop p k' \<noteq> ''format'')"
    proof cases
      case 1
      have "CHR ''='' \<notin> set ''order''" by simp
      then show ?thesis using 1 no_eq_values(1) [OF N] key_suffixes(5) by blast
    next
      case 2
      have "CHR ''='' \<notin> set ''heading''" by simp
      then show ?thesis using 2 no_eq_values(2) [OF H] key_suffixes(6) by blast
    qed
  qed
  have "FindStringSubmatch formatRegex (joinComma ps) = FindStringSubmatch formatRegex []"
    by (rule find_skip_all [OF formatRegex_nomatch _ _ skip]) simp_all
  also have "\<dots> = None" by (simp add: formatRegex_def)
  finally show ?thesis using None capture_none by (simp add: formatFromTag_def)
next
  case (Some F')
  have "''format='' @ F' \<in> set ps" using ps Some by (simp add: tagParts_def)
  then obtain xs ys where split: "ps = xs @ (''format='' @ F') # ys" "''format='' @ F' \<notin> set xs"
    by (meson split_list_first)
  have skip: "\<forall>x\<in>set xs. \<exists>k' V. x = k' @ ''='' @ V \<and> CHR ''='' \<notin> set k' \<and> CHR ''='' \<notin> set V
               \<and> (\<forall>p. drop p k' \<noteq> ''format'')"
  proof
    fix x assume x: "x \<in> set xs"
    then have "x \<in> set (tagParts N H F)" "x \<noteq> ''format='' @ F'" using split ps by auto
    then consider "x = ''order'' @ ''='' @ N" | "x = ''heading'' @ ''='' @ H"
      using Some by (auto simp: tagParts_def)
    then show "\<exists>k' V. x = k' @ ''='' @ V \<and> CHR ''='' \<notin> set k' \<and> CHR ''='' \<notin> set V
               \<and> (\<forall>p. drop p k' \<noteq> ''format'')"
    proof cases
      case 1
      have "CHR ''='' \<notin> set ''order''" by simp
      then show ?thesis using 1 no_eq_values(1) [OF N] key_suffixes(5) by blast
    next
      case 2
      have "CHR ''='' \<notin> set ''heading''" by simp
      then show ?thesis using 2 no_eq_values(2) [OF H] key_suffixes(6) by blast
    qed
  qed
  obtain tail where tail: "joinComma ((''format='' @ F') # ys) = (''format='' @ F') @ tail"
    "tail = [] \<or> (\<exists>rest. tail = CHR '','' # rest)"
    using joinComma_tail by blast
  have "FindStringSubmatch formatRegex (joinComma ps)
      = FindStringSubmatch formatRegex (joinComma ((''format='' @ F') # ys))"
    unfolding split(1) by (rule find_skip_parts [OF formatRegex_nomatch _ _ skip]) simp_all
  also have "\<dots> = Some [''format'' \<mapsto> F']"
    using format_at [OF _ _ tail(2), of F'] F Some tail(1) by (simp add: formatInClass_def)
  finally show ?thesis
    using capture_format Some by (simp add: index_str_def formatFromTag_def)
qed

subsection \<open>The heading without its quotes and blanks\<close>

lemma Trim_middle:
  assumes "list_all (\<lambda>ch. ch \<in> set cs) l" "list_all (\<lambda>ch. ch \<in> set cs) r"
    and "c \<noteq> []" "hd c \<notin> set cs" "last c \<notin> set cs"
  shows "Trim (l @ c @ r) cs = c"
proof -
  obtain a c' where c: "c = a # c'" using assms(3) by (cases c) auto
  have "dropWhile (\<lambda>ch. ch \<in> set cs) (l @ c @ r) = dropWhile (\<lambda>ch. ch \<in> set cs) (c @ r)"
    using assms(1) by (simp add: dropWhile_append2 list_all_iff)
  also have "\<dots> = c @ r" using assms(4) by (simp add: c)
  finally have front: "dropWhile (\<lambda>ch. ch \<in> set cs) (l @ c @ r) = c @ r" .
  obtain b d where d: "rev c = b # d" using assms(3) by (cases "rev c") auto
  have "b = last c" using d by (metis assms(3) hd_rev list.sel(1))
  then have b: "b \<notin> set cs" using assms(5) by simp
  have "dropWhile (\<lambda>ch. ch \<in> set cs) (rev r @ rev c) = dropWhile (\<lambda>ch. ch \<in> set cs) (rev c)"
    by (rule dropWhile_append2) (use assms(2) in \<open>simp add: list_all_iff\<close>)
  also have "\<dots> = rev c" using b by (simp add: d)
  finally have "dropWhile (\<lambda>ch. ch \<in> set cs) (rev (c @ r)) = rev c" by simp
  then show ?thesis by (simp add: Trim_def front)
qed

lemma headingInClass_trimmed:
  assumes "headingInClass quoted l c r"
  shows "(quotedHeading (headingText quoted l c r) \<or> plainHeading (headingText quoted l c r)) \<and>
         TrimSpace (Trim (headingText quoted l c r) [dquote]) = c"
proof -
  define cls where "cls = (if quoted then quotedHeadingClass else plainHeadingClass)"
  have c: "c \<noteq> []" "hd c \<notin> set spaceChars" "last c \<notin> set spaceChars"
    and l: "list_all (\<lambda>ch. ch \<in> set spaceChars) l" and r: "list_all (\<lambda>ch. ch \<in> set spaceChars) r"
    and all: "list_all (\<lambda>ch. ch \<in> set cls) (l @ c @ r)"
    using assms by (simp_all add: headingInClass_def cls_def)
  have vt: "CHR 0x0B \<notin> set cls"
    by (simp add: cls_def quotedHeadingClass_def plainHeadingClass_def wordChars_def
        spaceChars_def backslash_def)
  have incl: "ch \<in> set [CHR 0x09, CHR 0x0A, CHR 0x0B, CHR 0x0C, CHR 0x0D, CHR 0x20]
      \<longleftrightarrow> ch \<in> set spaceChars \<or> ch = CHR 0x0B" for ch
    by (auto simp: spaceChars_def)
  have "hd c \<in> set cls" "last c \<in> set cls"
    using all c(1) by (auto simp: list_all_iff)
  then have ends: "hd c \<notin> set [CHR 0x09, CHR 0x0A, CHR 0x0B, CHR 0x0C, CHR 0x0D, CHR 0x20]"
    "last c \<notin> set [CHR 0x09, CHR 0x0A, CHR 0x0B, CHR 0x0C, CHR 0x0D, CHR 0x20]"
    using c(2,3) vt unfolding incl by metis+
  have "list_all (\<lambda>ch. ch \<in> set [CHR 0x09, CHR 0x0A, CHR 0x0B, CHR 0x0C, CHR 0x0D, CHR 0x20]) l"
    "list_all (\<lambda>ch. ch \<in> set [CHR 0x09, CHR 0x0A, CHR 0x0B, CHR 0x0C, CHR 0x0D, CHR 0x20]) r"
    using l r unfolding incl by (simp_all add: list_all_iff)
  then have space: "TrimSpace (l @ c @ r) = c"
    unfolding TrimSpace_def using c(1) ends by (rule Trim_middle)
  have ne: "l @ c @ r \<noteq> []" using c(1) by simp
  have "dquote \<notin> set cls"
    using dquote_classes by (simp add: cls_def)
  then have nq: "dquote \<notin> set (l @ c @ r)"
    using all by (auto simp: list_all_iff)
  have "hd (l @ c @ r) \<in> set (l @ c @ r)" "last (l @ c @ r) \<in> set (l @ c @ r)"
    using ne by (rule hd_in_set, rule last_in_set)
  then have q: "hd (l @ c @ r) \<notin> set [dquote]" "last (l @ c @ r) \<notin> set [dquote]"
    using nq by auto
  show ?thesis
  proof (cases quoted)
    case False
    then have "plainHeading (headingText quoted l c r)"
      using all ne by (simp add: plainHeading_def headingText_def cls_def)
    moreover have "Trim ([] @ (l @ c @ r) @ []) [dquote] = l @ c @ r"
      using ne q by (intro Trim_middle) simp_all
    ultimately show ?thesis using False space by (simp add: headingText_def)
  next
    case True
    have "Trim ([dquote] @ (l @ c @ r) @ [dquote]) [dquote] = l @ c @ r"
      using ne q by (intro Trim_middle) simp_all
    moreover have "quotedHeading (headingText quoted l c r)"
    proof -
      have allq: "list_all (\<lambda>ch. ch \<in> set quotedHeadingClass) (l @ c @ r)"
        using all True by (simp only: cls_def if_True)
      have shape: "quotedHeading ([dquote] @ X @ [dquote])"
        if "X \<noteq> []" "list_all (\<lambda>ch. ch \<in> set quotedHeadingClass) X" for X
        using that by (simp add: quotedHeading_def Suc_le_eq)
      have "quotedHeading ([dquote] @ (l @ c @ r) @ [dquote])"
        by (rule shape [OF ne allq])
      then show ?thesis using True by (simp add: headingText_def)
    qed
    ultimately show ?thesis using True space by (simp add: headingText_def)
  qed
qed

text \<open>
  C7, as amended. For a tag made of the parts \<^verbatim>\<open>order=N\<close>, \<^verbatim>\<open>heading=H\<close> and, when there is
  a format, \<^verbatim>\<open>format=F\<close>, joined by commas in any arrangement, whose values stay within the
  character classes of the patterns, \<^verbatim>\<open>parseOptFromTag\<close> returns the options with the number
  \<open>N\<close> as order, the text of \<open>H\<close> between its quotes and surrounding blanks as heading, and
  \<open>F\<close> as format, the empty string when there is none.
\<close>

theorem parseOptFromTag_in_classes:
  assumes "validOrder N" and "headingInClass quoted l c r" and "formatInClass F"
    and "set ps = set (tagParts N (headingText quoted l c r) F)"
  shows "parseOptFromTag (joinComma ps)
         = Inr \<lparr>order = decimal N, heading = c,
                format = (case F of None \<Rightarrow> [] | Some F' \<Rightarrow> F')\<rparr>"
proof -
  define H where "H = headingText quoted l c r"
  have H: "quotedHeading H \<or> plainHeading H" and tr: "TrimSpace (Trim H [dquote]) = c"
    using headingInClass_trimmed [OF assms(2)] by (simp_all add: H_def)
  have ps: "set ps = set (tagParts N H F)" using assms(4) by (simp add: H_def)
  have "c \<noteq> []" using assms(2) by (simp add: headingInClass_def)
  then have "headingFromTag (joinComma ps) = (c, None)"
    using parts_heading [OF assms(1) H assms(3) ps] tr by (simp add: headingFromTag_def Let_def)
  then show ?thesis
    using parts_order [OF assms(1) H assms(3) ps] parts_format [OF assms(1) H assms(3) ps]
    by (simp add: parseOptFromTag_def)
qed

theorem parseOptFromTag_in_classes_witness:
  "validOrder ''012'' \<and> headingInClass True '' '' ''Unit price, net'' ''  '' \<and>
   formatInClass (Some ''%.2f'') \<and>
   set [''format=%.2f'', ''heading='' @ [dquote] @ '' Unit price, net  '' @ [dquote], ''order=012'']
     = set (tagParts ''012'' (headingText True '' '' ''Unit price, net'' ''  '') (Some ''%.2f'')) \<and>
   parseOptFromTag
       (''format=%.2f,heading='' @ [dquote] @ '' Unit price, net  '' @ [dquote] @ '',order=012'')
     = Inr \<lparr>order = 12, heading = ''Unit price, net'', format = ''%.2f''\<rparr>"
proof -
  have 1: "validOrder ''012''"
    by (simp add: validOrder_def digits_def decimal_def digitVal_def)
  have 2: "headingInClass True '' '' ''Unit price, net'' ''  ''"
    by (simp add: headingInClass_def quotedHeadingClass_def wordChars_def spaceChars_def
        backslash_def)
  have 3: "formatInClass (Some ''%.2f'')"
    by (simp add: formatInClass_def formatClass_def wordChars_def digits_def spaceChars_def
        backslash_def)
  have 4: "set [''format=%.2f'', ''heading='' @ [dquote] @ '' Unit price, net  '' @ [dquote], ''order=012'']
     = set (tagParts ''012'' (headingText True '' '' ''Unit price, net'' ''  '') (Some ''%.2f''))"
    by (auto simp: tagParts_def headingText_def)
  have 5: "decimal ''012'' = 12" by (simp add: decimal_def digitVal_def)
  show ?thesis
    using parseOptFromTag_in_classes [OF 1 2 3 4] 1 2 3 4 5 by simp
qed

text \<open>
  C7. Claimed: every annotation with \<^verbatim>\<open>order=N\<close>, \<^verbatim>\<open>heading=H\<close> and optionally
  \<^verbatim>\<open>format=F\<close> parses to these three values. A value with a character outside the class
  of its pattern is not read as written: the colon of a time layout makes the parser drop
  the format without an error, and the minus sign of a plain heading makes it fail with
  \<^verbatim>\<open>ErrHeadingPropRequired\<close>.
\<close>

theorem parseOptFromTag_outside_classes:
  "parseOptFromTag ''order=1,heading=When,format=15:04''
     = Inr \<lparr>order = 1, heading = ''When'', format = []\<rparr> \<and>
   parseOptFromTag ''order=1,heading=Unit-Price'' = Inl ErrHeadingPropRequired"
  by code_simp

section \<open>The type switch\<close>

text \<open>
  C1. Claimed: a numeric or string value is formatted with the column's format when that is
  non-empty and with \<^verbatim>\<open>%v\<close> otherwise. The code does the opposite, because
  \<^verbatim>\<open>hasFormatting\<close> is true exactly when the format is empty: a value of one of the eight
  listed types is formatted with \<^verbatim>\<open>%v\<close> when the column has a format and with the empty
  template when it has none.
\<close>

theorem formatValue_basic:
  "isBasic val \<Longrightarrow>
   formatValue opt val = (if format opt = [] then Sprintf [] val else Sprintf ''%v'' val)"
  by (simp add: formatValue_def hasFormatting_def)

theorem formatValue_basic_witness:
  "isBasic (V_int 5) \<and>
   formatValue \<lparr>order = 1, heading = ''Qty'', format = ''%05d''\<rparr> (V_int 5)
     = Sprintf ''%v'' (V_int 5) \<and>
   formatValue \<lparr>order = 1, heading = ''Qty'', format = []\<rparr> (V_int 5) = Sprintf [] (V_int 5)"
  using formatValue_basic [of "V_int 5" "\<lparr>order = 1, heading = ''Qty'', format = ''%05d''\<rparr>"]
    formatValue_basic [of "V_int 5" "\<lparr>order = 1, heading = ''Qty'', format = []\<rparr>"]
  by (simp add: isBasic_def)

text \<open>
  C2. Claimed: a non-zero time is formatted with the column's format as layout when that is
  non-empty and with its \<^verbatim>\<open>String\<close> method otherwise. The code does the opposite, for
  the same reason as in C1: with a format it calls \<^verbatim>\<open>String\<close>, without one it calls
  \<^verbatim>\<open>Format\<close> with the empty layout.
\<close>

theorem formatValue_time:
  "\<not> IsZero t \<Longrightarrow>
   formatValue opt (V_Time t) = (if format opt = [] then Time_Format t [] else Time_String t)"
  by (simp add: formatValue_def hasFormatting_def isBasic_def)

theorem formatValue_time_witness:
  "\<not> IsZero \<lparr>sec = 63082281600, nsec = 0, loc = ''UTC''\<rparr> \<and>
   formatValue \<lparr>order = 1, heading = ''When'', format = ''2006-01-02''\<rparr>
     (V_Time \<lparr>sec = 63082281600, nsec = 0, loc = ''UTC''\<rparr>)
     = Time_String \<lparr>sec = 63082281600, nsec = 0, loc = ''UTC''\<rparr> \<and>
   formatValue \<lparr>order = 1, heading = ''When'', format = []\<rparr>
     (V_Time \<lparr>sec = 63082281600, nsec = 0, loc = ''UTC''\<rparr>)
     = Time_Format \<lparr>sec = 63082281600, nsec = 0, loc = ''UTC''\<rparr> []"
  using
    formatValue_time [of "\<lparr>sec = 63082281600, nsec = 0, loc = ''UTC''\<rparr>"
      "\<lparr>order = 1, heading = ''When'', format = ''2006-01-02''\<rparr>"]
    formatValue_time [of "\<lparr>sec = 63082281600, nsec = 0, loc = ''UTC''\<rparr>"
      "\<lparr>order = 1, heading = ''When'', format = []\<rparr>"]
  by (simp add: IsZero_def)

text \<open>
  C5. A time value that is the zero instant is written as \<^verbatim>\<open>" - "\<close>, whatever the format
  of the column.
\<close>

theorem formatValue_zero_time:
  "IsZero t \<Longrightarrow> formatValue opt (V_Time t) = Str '' - ''"
  by (simp add: formatValue_def isBasic_def)

theorem formatValue_zero_time_witness:
  "IsZero \<lparr>sec = 0, nsec = 0, loc = ''UTC''\<rparr> \<and>
   formatValue \<lparr>order = 1, heading = ''When'', format = ''2006-01-02''\<rparr>
     (V_Time \<lparr>sec = 0, nsec = 0, loc = ''UTC''\<rparr>) = Str '' - '' \<and>
   formatValue \<lparr>order = 1, heading = ''When'', format = []\<rparr>
     (V_Time \<lparr>sec = 0, nsec = 0, loc = ''UTC''\<rparr>) = Str '' - ''"
  using
    formatValue_zero_time [of "\<lparr>sec = 0, nsec = 0, loc = ''UTC''\<rparr>"
      "\<lparr>order = 1, heading = ''When'', format = ''2006-01-02''\<rparr>"]
    formatValue_zero_time [of "\<lparr>sec = 0, nsec = 0, loc = ''UTC''\<rparr>"
      "\<lparr>order = 1, heading = ''When'', format = []\<rparr>"]
  by (simp add: IsZero_def)

text \<open>
  C8. A value whose type has a \<^verbatim>\<open>String\<close> method, and is neither one of the listed
  built-in types nor a time, is written as what that method returns; the format of the
  column plays no part.
\<close>

theorem formatValue_Stringer:
  "Stringer val = Some s \<Longrightarrow> \<not> isBasic val \<Longrightarrow> \<not> isTime val \<Longrightarrow>
   formatValue opt val = s \<and> formatValue (opt\<lparr>format := f\<rparr>) val = s"
  by (cases val) (simp_all add: formatValue_def isBasic_def isTime_def)

theorem formatValue_Stringer_witness:
  "Stringer (V_other ''Color(2)'' (Some ''blue'')) = Some (Str ''blue'') \<and>
   \<not> isBasic (V_other ''Color(2)'' (Some ''blue'')) \<and>
   \<not> isTime (V_other ''Color(2)'' (Some ''blue'')) \<and>
   formatValue \<lparr>order = 1, heading = ''Colour'', format = []\<rparr>
     (V_other ''Color(2)'' (Some ''blue'')) = Str ''blue'' \<and>
   formatValue \<lparr>order = 1, heading = ''Colour'', format = ''%d''\<rparr>
     (V_other ''Color(2)'' (Some ''blue'')) = Str ''blue''"
  using formatValue_Stringer [of "V_other ''Color(2)'' (Some ''blue'')" "Str ''blue''"
      "\<lparr>order = 1, heading = ''Colour'', format = []\<rparr>" "''%d''"]
  by (simp add: Stringer_def isBasic_def isTime_def)

section \<open>The declarative path: errors\<close>

lemma parseFields_append:
  "parseFields (pre @ rest) acc
     = (case parseFields pre acc of Inl e \<Rightarrow> Inl e | Inr acc' \<Rightarrow> parseFields rest acc')"
  by (induction pre arbitrary: acc) (simp_all add: Let_def split: sum.splits)

lemma writeWithTags_parse_error:
  assumes "getListType data = Returned t" "getParseOptions t = Returned (Inl err)"
  shows "writeWithTags sheet data = (Returned (Some err), sheet)"
  using assms by (simp add: writeWithTags_def)

lemma parseOptFromTag_heading_error:
  assumes "snd (orderFromTag tag) = None" "fst (headingFromTag tag) = []"
  shows "parseOptFromTag tag = Inl ErrHeadingPropRequired"
proof -
  have "headingFromTag tag = ([], Some ErrHeadingPropRequired)"
    using assms(2) by (simp add: headingFromTag_def Let_def split: if_splits)
  then show ?thesis
    using assms(1) by (cases "orderFromTag tag") (simp add: parseOptFromTag_def)
qed

text \<open>
  C6, as amended. When the first annotated field whose tag does not parse has an order that
  parses and no heading (every annotated field before it parses), \<^verbatim>\<open>writeWithTags\<close>
  returns \<^verbatim>\<open>ErrHeadingPropRequired\<close> and leaves the sheet as it was: no header and no
  row is written.
\<close>

theorem writeWithTags_missing_heading:
  assumes "getListType data = Returned (StructType (pre @ f # post))"
    and "parseFields pre [] = Inr opts"
    and "annotated f"
    and "snd (orderFromTag (xls f)) = None"
    and "fst (headingFromTag (xls f)) = []"
  shows "writeWithTags sheet data = (Returned (Some ErrHeadingPropRequired), sheet)"
proof -
  have "parseFields (f # post) opts = Inl ErrHeadingPropRequired"
    using assms(3) parseOptFromTag_heading_error [OF assms(4,5)]
    by (simp add: annotated_def)
  then have "parseFields (pre @ f # post) [] = Inl ErrHeadingPropRequired"
    using assms(2) by (simp add: parseFields_append)
  then have "getParseOptions (StructType (pre @ f # post)) = Returned (Inl ErrHeadingPropRequired)"
    by (simp add: getParseOptions_def)
  with assms(1) show ?thesis by (rule writeWithTags_parse_error)
qed

theorem writeWithTags_missing_heading_witness:
  "getListType (Some \<lparr>Type = SliceType (StructType
        ([\<lparr>Name = ''Name'', xls = ''order=1,heading=Name'', exported = True\<rparr>]
          @ \<lparr>Name = ''Qty'', xls = ''order=2,format=%d'', exported = True\<rparr> # [])),
      methods = None, elems = [[V_string ''nut'', V_int 5]]\<rparr>)
     = Returned (StructType
        ([\<lparr>Name = ''Name'', xls = ''order=1,heading=Name'', exported = True\<rparr>]
          @ \<lparr>Name = ''Qty'', xls = ''order=2,format=%d'', exported = True\<rparr> # [])) \<and>
   parseFields [\<lparr>Name = ''Name'', xls = ''order=1,heading=Name'', exported = True\<rparr>] []
     = Inr [\<lparr>order = 1, heading = ''Name'', format = []\<rparr>] \<and>
   annotated \<lparr>Name = ''Qty'', xls = ''order=2,format=%d'', exported = True\<rparr> \<and>
   snd (orderFromTag ''order=2,format=%d'') = None \<and>
   fst (headingFromTag ''order=2,format=%d'') = [] \<and>
   writeWithTags [[Str ''kept'']]
     (Some \<lparr>Type = SliceType (StructType
        ([\<lparr>Name = ''Name'', xls = ''order=1,heading=Name'', exported = True\<rparr>]
          @ \<lparr>Name = ''Qty'', xls = ''order=2,format=%d'', exported = True\<rparr> # [])),
      methods = None, elems = [[V_string ''nut'', V_int 5]]\<rparr>)
     = (Returned (Some ErrHeadingPropRequired), [[Str ''kept'']])"
proof -
  have 1: "getListType (Some \<lparr>Type = SliceType (StructType
        ([\<lparr>Name = ''Name'', xls = ''order=1,heading=Name'', exported = True\<rparr>]
          @ \<lparr>Name = ''Qty'', xls = ''order=2,format=%d'', exported = True\<rparr> # [])),
      methods = None, elems = [[V_string ''nut'', V_int 5]]\<rparr>)
     = Returned (StructType
        ([\<lparr>Name = ''Name'', xls = ''order=1,heading=Name'', exported = True\<rparr>]
          @ \<lparr>Name = ''Qty'', xls = ''order=2,format=%d'', exported = True\<rparr> # []))"
    by (simp add: getListType_def TypeOf_def)
  have 2: "parseFields [\<lparr>Name = ''Name'', xls = ''order=1,heading=Name'', exported = True\<rparr>] []
     = Inr [\<lparr>order = 1, heading = ''Name'', format = []\<rparr>]"
    by code_simp
  have 3: "annotated \<lparr>Name = ''Qty'', xls = ''order=2,format=%d'', exported = True\<rparr>"
    by (simp add: annotated_def)
  have 4: "snd (orderFromTag ''order=2,format=%d'') = None"
    by code_simp
  have 5: "fst (headingFromTag ''order=2,format=%d'') = []"
    by code_simp
  have o4: "snd (orderFromTag (xls \<lparr>Name = ''Qty'', xls = ''order=2,format=%d'', exported = True\<rparr>)) = None"
    using 4 by simp
  have h5: "fst (headingFromTag (xls \<lparr>Name = ''Qty'', xls = ''order=2,format=%d'', exported = True\<rparr>)) = []"
    using 5 by simp
  show ?thesis
    using writeWithTags_missing_heading [OF 1 2 3 o4 h5, of "[[Str ''kept'']]"] 1 2 3 4 5
    by simp
qed

text \<open>
  C6. Claimed: whenever some annotated field lacks a heading, the write fails with
  \<^verbatim>\<open>ErrHeadingPropRequired\<close>. The order is read before the heading, so a tag that lacks
  both fails with the error of \<^verbatim>\<open>strconv.Atoi\<close>; and \<^verbatim>\<open>WriteToSheet\<close> itself does not
  return at all (see C10).
\<close>

theorem writeWithTags_other_error_first:
  "writeWithTags []
     (Some \<lparr>Type = SliceType (StructType [\<lparr>Name = ''Qty'', xls = ''format=%d'', exported = True\<rparr>]),
        methods = None, elems = [[V_int 5]]\<rparr>)
     = (Returned (Some (NumError [] ErrSyntax)), []) \<and>
   WriteToSheet []
     (Some \<lparr>Type = SliceType (StructType [\<lparr>Name = ''Qty'', xls = ''format=%d'', exported = True\<rparr>]),
        methods = None, elems = [[V_int 5]]\<rparr>)
     = (Panicked ''reflect: nil type passed to Type.Implements'', [])"
  by code_simp

section \<open>The declarative path: columns in ascending order\<close>

subsection \<open>Sorting and the position of an order\<close>

lemma set_insertion: "set (insertion x ys) = insert x (set ys)"
  by (induction ys) auto

lemma length_insertion: "length (insertion x ys) = Suc (length ys)"
  by (induction ys) auto

lemma sorted_insertion:
  "sorted (map order ys) \<Longrightarrow> sorted (map order (insertion x ys))"
  by (induction ys) (auto simp: Less_def set_insertion)

lemma foldl_insertion:
  "set (foldl (\<lambda>sorted x. insertion x sorted) acc xs) = set acc \<union> set xs \<and>
   length (foldl (\<lambda>sorted x. insertion x sorted) acc xs) = length acc + length xs \<and>
   (sorted (map order acc) \<longrightarrow> sorted (map order (foldl (\<lambda>sorted x. insertion x sorted) acc xs)))"
  by (induction xs arbitrary: acc) (auto simp: set_insertion length_insertion sorted_insertion)

lemma set_sort_Sort: "set (sort_Sort xs) = set xs"
  using foldl_insertion [of "[]" xs] by (simp add: sort_Sort_def)

lemma length_sort_Sort: "length (sort_Sort xs) = length xs"
  using foldl_insertion [of "[]" xs] by (simp add: sort_Sort_def)

lemma sorted_sort_Sort: "sorted (map order (sort_Sort xs))"
  using foldl_insertion [of "[]" xs] by (simp add: sort_Sort_def)

lemma distinct_same_set:
  assumes "distinct (map f xs)" "set ys = set xs" "length ys = length xs"
  shows "distinct (map f ys)"
proof -
  have "card (f ` set xs) = length xs"
    using assms(1) by (metis distinct_card length_map list.set_map)
  then have "card (set (map f ys)) = length (map f ys)"
    using assms(2,3) by simp
  then show ?thesis by (rule card_distinct)
qed

lemma sort_Sort_distinct:
  assumes "distinct (map order xs)"
  shows "sort_Sort xs = sort_key order xs"
proof (rule map_sorted_distinct_set_unique [where f = order])
  show "inj_on order (set (sort_Sort xs) \<union> set (sort_key order xs))"
    using assms by (simp add: set_sort_Sort distinct_map)
  show "sorted (map order (sort_Sort xs))" by (rule sorted_sort_Sort)
  show "distinct (map order (sort_Sort xs))"
    using assms by (rule distinct_same_set) (simp_all add: set_sort_Sort length_sort_Sort)
  show "sorted (map order (sort_key order xs))" by (rule sorted_sort_key)
  show "distinct (map order (sort_key order xs))"
    using assms by (rule distinct_same_set) simp_all
  show "set (sort_Sort xs) = set (sort_key order xs)" by (simp add: set_sort_Sort)
qed

lemma orderToCellPos_snoc:
  "orderToCellPos (xs @ [x]) = (orderToCellPos xs)(order x \<mapsto> length xs)"
  by (simp add: orderToCellPos_def enumerate_append_eq)

lemma orderToCellPos_nth:
  "distinct (map order xs) \<Longrightarrow> i < length xs \<Longrightarrow> orderToCellPos xs (order (xs ! i)) = Some i"
proof (induction xs rule: rev_induct)
  case Nil
  then show ?case by simp
next
  case (snoc x xs)
  show ?case
  proof (cases "i = length xs")
    case True
    then show ?thesis by (simp add: orderToCellPos_snoc)
  next
    case False
    then have i: "i < length xs" using snoc.prems(2) by simp
    then have "xs ! i \<in> set xs" by simp
    then have "order (xs ! i) \<in> order ` set xs" by (rule imageI)
    moreover have "order x \<notin> order ` set xs" using snoc.prems(1) by simp
    ultimately have "order (xs ! i) \<noteq> order x" by metis
    then show ?thesis using snoc i by (simp add: orderToCellPos_snoc nth_append)
  qed
qed

lemma parseOptFromTag_order:
  "parseOptFromTag tag = Inr opt \<Longrightarrow> fst (orderFromTag tag) = order opt"
  by (auto simp: parseOptFromTag_def split: prod.splits option.splits)

lemma parseFields_rel:
  "parseFields fs acc = Inr opts \<Longrightarrow>
   \<exists>os. opts = acc @ os \<and>
        list_all2 (\<lambda>f opt. parseOptFromTag (xls f) = Inr opt) (filter annotated fs) os"
proof (induction fs arbitrary: acc)
  case Nil
  then show ?case by simp
next
  case (Cons f fs)
  show ?case
  proof (cases "annotated f")
    case False
    then show ?thesis using Cons by (auto simp: annotated_def)
  next
    case True
    then obtain opt where opt: "parseOptFromTag (xls f) = Inr opt"
      using Cons.prems by (auto simp: annotated_def split: sum.splits)
    then have "parseFields fs (acc @ [opt]) = Inr opts"
      using Cons.prems True by (simp add: annotated_def)
    then obtain os where "opts = (acc @ [opt]) @ os"
      "list_all2 (\<lambda>f opt. parseOptFromTag (xls f) = Inr opt) (filter annotated fs) os"
      using Cons.IH by blast
    then show ?thesis using True opt by auto
  qed
qed

subsection \<open>The cells of one row\<close>

text \<open>
  The inner loop, for column options \<open>sopts\<close> with pairwise distinct orders: \<open>cols\<close> are
  the options and values of the annotated fields in \<open>zs\<close>. A cell whose column is among
  them gets the formatted value of that field; any other cell keeps what it held.
\<close>

lemma writeFields_cells:
  assumes d: "distinct (map order sopts)"
  shows "list_all2 (\<lambda>(f, v) (opt, v'). parseOptFromTag (xls f) = Inr opt \<and> v' = v)
           (filter (\<lambda>(f, v). annotated f) zs) cols \<Longrightarrow>
         fst ` set cols \<subseteq> set sopts \<Longrightarrow>
         distinct (map (\<lambda>(opt, v). order opt) cols) \<Longrightarrow>
         \<forall>(f, v)\<in>set zs. annotated f \<longrightarrow> exported f \<Longrightarrow>
         length vals = length sopts \<Longrightarrow>
         writeFields sopts (orderToCellPos sopts) zs vals
           = Returned (map (\<lambda>i. case map_of (map (\<lambda>(opt, v). (order opt, v)) cols) (order (sopts ! i)) of
                                Some v \<Rightarrow> formatValue (sopts ! i) v
                              | None \<Rightarrow> vals ! i) [0 ..< length sopts])"
proof (induction zs arbitrary: cols vals)
  case Nil
  then have "cols = []" by simp
  moreover have "map ((!) vals) [0 ..< length sopts] = vals"
    using Nil.prems(5) map_nth [of vals] by simp
  ultimately show ?case by simp
next
  case (Cons z zs)
  obtain f v where z: "z = (f, v)" by (cases z)
  show ?case
  proof (cases "annotated f")
    case False
    then have "writeFields sopts (orderToCellPos sopts) (z # zs) vals
        = writeFields sopts (orderToCellPos sopts) zs vals"
      by (auto simp: z annotated_def)
    moreover have "list_all2 (\<lambda>(f, v) (opt, v'). parseOptFromTag (xls f) = Inr opt \<and> v' = v)
           (filter (\<lambda>(f, v). annotated f) zs) cols"
      using Cons.prems(1) False by (simp add: z)
    ultimately show ?thesis
      using Cons.IH [OF _ Cons.prems(2,3) _ Cons.prems(5)] Cons.prems(4) by simp
  next
    case True
    then obtain opt cols' where cols: "cols = (opt, v) # cols'"
      and opt: "parseOptFromTag (xls f) = Inr opt"
      and rest: "list_all2 (\<lambda>(f, v) (opt, v'). parseOptFromTag (xls f) = Inr opt \<and> v' = v)
           (filter (\<lambda>(f, v). annotated f) zs) cols'"
      using Cons.prems(1) by (auto simp: z list_all2_Cons1)
    have "opt \<in> set sopts" using Cons.prems(2) cols by auto
    then obtain p where p: "p < length sopts" "sopts ! p = opt"
      by (auto simp: in_set_conv_nth)
    have pos: "index_pos (orderToCellPos sopts) (fst (orderFromTag (xls f))) = p"
      using orderToCellPos_nth [OF d p(1)] p(2) parseOptFromTag_order [OF opt]
      by (simp add: index_pos_def)
    have ex: "exported f" using Cons.prems(4) True by (simp add: z)
    define vals' where "vals' = vals[p := formatValue opt v]"
    have step: "writeFields sopts (orderToCellPos sopts) (z # zs) vals
        = writeFields sopts (orderToCellPos sopts) zs vals'"
      using True pos p ex by (simp add: z annotated_def Let_def vals'_def)
    have fresh: "order opt \<notin> fst ` set (map (\<lambda>(opt, v). (order opt, v)) cols')"
      using Cons.prems(3) cols by (force simp: image_iff)
    have IH: "writeFields sopts (orderToCellPos sopts) zs vals'
        = Returned (map (\<lambda>i. case map_of (map (\<lambda>(opt, v). (order opt, v)) cols') (order (sopts ! i)) of
                                Some v \<Rightarrow> formatValue (sopts ! i) v
                              | None \<Rightarrow> vals' ! i) [0 ..< length sopts])"
      using Cons.IH [OF rest, of vals'] Cons.prems(2,3,4,5) cols by (simp add: vals'_def)
    have "(case map_of (map (\<lambda>(opt, v). (order opt, v)) cols') (order (sopts ! i)) of
             Some v \<Rightarrow> formatValue (sopts ! i) v | None \<Rightarrow> vals' ! i)
        = (case map_of (map (\<lambda>(opt, v). (order opt, v)) cols) (order (sopts ! i)) of
             Some v \<Rightarrow> formatValue (sopts ! i) v | None \<Rightarrow> vals ! i)"
      if i: "i < length sopts" for i
    proof (cases "i = p")
      case True
      have "map_of (map (\<lambda>(opt, v). (order opt, v)) cols') (order opt) = None"
        using fresh by (simp add: map_of_eq_None_iff)
      then show ?thesis
        using True p Cons.prems(5) by (simp add: cols vals'_def)
    next
      case False
      have "order (sopts ! i) \<noteq> order (sopts ! p)"
        using d i p(1) False by (metis length_map nth_eq_iff_index_eq nth_map)
      moreover have "vals' ! i = vals ! i"
        using False by (simp add: vals'_def)
      ultimately show ?thesis
        using p(2) by (simp add: cols split: option.split)
    qed
    then show ?thesis using step IH by simp
  qed
qed

lemma map_upt_nth: "map (\<lambda>i. f (xs ! i)) [0 ..< length xs] = map f xs"
  by (rule nth_equalityI) simp_all

lemma row_sorted:
  assumes d: "distinct (map order opts)" and len: "length vs = length opts"
  shows "map (\<lambda>i. case map_of (map (\<lambda>(opt, v). (order opt, v)) (zip opts vs))
                         (order (sort_key order opts ! i)) of
                  Some v \<Rightarrow> formatValue (sort_key order opts ! i) v
                | None \<Rightarrow> vals ! i) [0 ..< length (sort_key order opts)]
         = map (\<lambda>(opt, v). formatValue opt v) (sort_key (\<lambda>(opt, v). order opt) (zip opts vs))"
proof -
  define cols where "cols = zip opts vs"
  define scols where "scols = sort_key (\<lambda>(opt, v). order opt) cols"
  define sopts where "sopts = sort_key order opts"
  have fst_cols: "map fst cols = opts" using len by (simp add: cols_def)
  have "map (\<lambda>(opt, v). order opt) cols = map order (map fst cols)"
    by (simp add: case_prod_unfold comp_def)
  then have keys: "map (\<lambda>(opt, v). order opt) cols = map order opts"
    by (simp only: fst_cols)
  have dk: "distinct (map (\<lambda>(opt, v). order opt) cols)" using d keys by simp
  have "distinct (map (\<lambda>(opt, v). order opt) scols)"
    using dk by (rule distinct_same_set) (simp_all add: scols_def)
  then have ds: "distinct (map order (map fst scols))"
    by (simp add: case_prod_unfold comp_def)
  have "sorted (map (\<lambda>(opt, v). order opt) scols)"
    unfolding scols_def by (rule sorted_sort_key)
  then have ss: "sorted (map order (map fst scols))"
    by (simp add: case_prod_unfold comp_def)
  have "set (map fst scols) = set (map fst cols)" by (simp add: scols_def)
  also have "\<dots> = set opts" by (simp only: fst_cols)
  also have "\<dots> = set sopts" by (simp add: sopts_def)
  finally have set_eq: "set (map fst scols) = set sopts" .
  have fsts: "map fst scols = sopts"
  proof (rule map_sorted_distinct_set_unique [where f = order])
    show "inj_on order (set (map fst scols) \<union> set sopts)"
      using d set_eq by (simp add: sopts_def distinct_map)
    show "sorted (map order (map fst scols))" by (rule ss)
    show "distinct (map order (map fst scols))" by (rule ds)
    show "sorted (map order sopts)" unfolding sopts_def by (rule sorted_sort_key)
    show "distinct (map order sopts)"
      unfolding sopts_def using d by (rule distinct_same_set) simp_all
    show "set (map fst scols) = set sopts" by (rule set_eq)
  qed
  have len_s: "length scols = length sopts" using arg_cong [OF fsts, of length] by simp
  have dk': "distinct (map fst (map (\<lambda>(opt, v). (order opt, v)) cols))"
    using dk by (simp add: case_prod_unfold comp_def)
  have cell: "(case map_of (map (\<lambda>(opt, v). (order opt, v)) cols) (order (sopts ! i)) of
                  Some v \<Rightarrow> formatValue (sopts ! i) v | None \<Rightarrow> vals ! i)
              = (\<lambda>(opt, v). formatValue opt v) (scols ! i)"
    if i: "i < length sopts" for i
  proof -
    obtain opt v where ov: "scols ! i = (opt, v)" by (cases "scols ! i")
    have "sopts ! i = map fst scols ! i" by (simp add: fsts)
    also have "\<dots> = fst (scols ! i)" using i len_s by simp
    finally have "opt = sopts ! i" using ov by simp
    moreover have "scols ! i \<in> set scols" using i len_s by simp
    then have "(opt, v) \<in> set cols" using ov by (simp add: scols_def)
    then have "(order opt, v) \<in> set (map (\<lambda>(opt, v). (order opt, v)) cols)"
      by force
    then have "map_of (map (\<lambda>(opt, v). (order opt, v)) cols) (order opt) = Some v"
      using dk' by (rule map_of_is_SomeI [rotated])
    ultimately show ?thesis using ov by simp
  qed
  have "map (\<lambda>i. case map_of (map (\<lambda>(opt, v). (order opt, v)) cols) (order (sopts ! i)) of
                  Some v \<Rightarrow> formatValue (sopts ! i) v | None \<Rightarrow> vals ! i) [0 ..< length sopts]
        = map (\<lambda>i. (\<lambda>(opt, v). formatValue opt v) (scols ! i)) [0 ..< length sopts]"
    using cell by simp
  also have "\<dots> = map (\<lambda>(opt, v). formatValue opt v) scols"
    unfolding len_s [symmetric] by (rule map_upt_nth)
  finally show ?thesis unfolding cols_def scols_def sopts_def .
qed

lemma zip_filter_rel:
  assumes "length item = length fs"
  shows "list_all2 (\<lambda>f opt. parseOptFromTag (xls f) = Inr opt) (filter annotated fs) opts \<Longrightarrow>
         list_all2 (\<lambda>(f, v) (opt, v'). parseOptFromTag (xls f) = Inr opt \<and> v' = v)
           (filter (\<lambda>(f, v). annotated f) (zip fs item)) (zip opts (annotatedValues fs item))"
  using assms
proof (induction item fs arbitrary: opts rule: list_induct2)
  case Nil
  then show ?case by (simp add: annotatedValues_def)
next
  case (Cons v item f fs)
  show ?case
  proof (cases "annotated f")
    case False
    then show ?thesis using Cons by (simp add: annotatedValues_def)
  next
    case True
    then obtain opt opts' where "opts = opt # opts'" "parseOptFromTag (xls f) = Inr opt"
      "list_all2 (\<lambda>f opt. parseOptFromTag (xls f) = Inr opt) (filter annotated fs) opts'"
      using Cons.prems by (auto simp: list_all2_Cons1)
    then show ?thesis using True Cons.IH [of opts'] by (simp add: annotatedValues_def)
  qed
qed

lemma length_annotatedValues:
  "length item = length fs \<Longrightarrow> length (annotatedValues fs item) = length (filter annotated fs)"
proof (induction item fs rule: list_induct2)
  case Nil
  then show ?case by (simp add: annotatedValues_def)
next
  case (Cons v item f fs)
  then show ?case by (simp add: annotatedValues_def)
qed

subsection \<open>Rows and the whole sheet\<close>

lemma writeFields_row:
  assumes d: "distinct (map order opts)"
    and rel: "list_all2 (\<lambda>f opt. parseOptFromTag (xls f) = Inr opt) (filter annotated fs) opts"
    and ex: "\<forall>f\<in>set fs. annotated f \<longrightarrow> exported f"
    and len: "length item = length fs"
    and lv: "length vals = length opts"
  shows "writeFields (sort_key order opts) (orderToCellPos (sort_key order opts)) (zip fs item) vals
         = Returned (map (\<lambda>(opt, v). formatValue opt v)
             (sort_key (\<lambda>(opt, v). order opt) (zip opts (annotatedValues fs item))))"
proof -
  define vs where "vs = annotatedValues fs item"
  have lvs: "length vs = length opts"
    using length_annotatedValues [OF len] list_all2_lengthD [OF rel] by (simp add: vs_def)
  have ds: "distinct (map order (sort_key order opts))"
    using d by (rule distinct_same_set) simp_all
  have r: "list_all2 (\<lambda>(f, v) (opt, v'). parseOptFromTag (xls f) = Inr opt \<and> v' = v)
           (filter (\<lambda>(f, v). annotated f) (zip fs item)) (zip opts vs)"
    unfolding vs_def using len rel by (rule zip_filter_rel)
  have sub: "fst ` set (zip opts vs) \<subseteq> set (sort_key order opts)"
    by (auto dest: set_zip_leftD)
  have "map (\<lambda>(opt, v). order opt) (zip opts vs) = map order (map fst (zip opts vs))"
    by (simp add: case_prod_unfold comp_def)
  then have dk: "distinct (map (\<lambda>(opt, v). order opt) (zip opts vs))"
    using d lvs by simp
  have e: "\<forall>(f, v)\<in>set (zip fs item). annotated f \<longrightarrow> exported f"
    using ex by (auto dest: set_zip_leftD)
  have l: "length vals = length (sort_key order opts)" using lv by simp
  show ?thesis
    unfolding vs_def [symmetric]
    using writeFields_cells [OF ds r sub dk e l] row_sorted [OF d lvs, of vals]
    by simp
qed

lemma writeItems_rows:
  assumes d: "distinct (map order opts)"
    and rel: "list_all2 (\<lambda>f opt. parseOptFromTag (xls f) = Inr opt) (filter annotated fs) opts"
    and ex: "\<forall>f\<in>set fs. annotated f \<longrightarrow> exported f"
  shows "\<forall>item\<in>set items. length item = length fs \<Longrightarrow> length vals = length opts \<Longrightarrow>
         writeItems (sort_key order opts) (orderToCellPos (sort_key order opts)) fs items vals sheet
         = (Returned None,
            sheet @ map (\<lambda>item. map (\<lambda>(opt, v). formatValue opt v)
                      (sort_key (\<lambda>(opt, v). order opt) (zip opts (annotatedValues fs item)))) items)"
proof (induction items arbitrary: vals sheet)
  case Nil
  then show ?case by simp
next
  case (Cons item items)
  have len: "length item = length fs" using Cons.prems(1) by simp
  define row where "row = map (\<lambda>(opt, v). formatValue opt v)
             (sort_key (\<lambda>(opt, v). order opt) (zip opts (annotatedValues fs item)))"
  have wf: "writeFields (sort_key order opts) (orderToCellPos (sort_key order opts)) (zip fs item) vals
      = Returned row"
    unfolding row_def by (rule writeFields_row [OF d rel ex len Cons.prems(2)])
  have "length (annotatedValues fs item) = length opts"
    using length_annotatedValues [OF len] list_all2_lengthD [OF rel] by simp
  then have lrow: "length row = length opts" by (simp add: row_def)
  have "writeItems (sort_key order opts) (orderToCellPos (sort_key order opts)) fs items row
          (writeRow sheet row)
      = (Returned None,
          writeRow sheet row @ map (\<lambda>item. map (\<lambda>(opt, v). formatValue opt v)
                      (sort_key (\<lambda>(opt, v). order opt) (zip opts (annotatedValues fs item)))) items)"
    using Cons.IH [OF _ lrow] Cons.prems(1) by simp
  then show ?case using wf by (simp add: writeRow_def row_def)
qed

text \<open>
  C4, as amended. For an array or slice of structs whose annotated fields all parse, are
  exported and have pairwise distinct orders, \<^verbatim>\<open>writeWithTags\<close> writes one header row and
  one row for each item, with the columns in strictly ascending order: the header holds the
  headings sorted by order, and each row holds the formatted values of the item's annotated
  fields sorted by the order of their columns. (Each item of the model holds one value for
  each field of the struct type.)
\<close>

theorem writeWithTags_columns_in_order:
  assumes "getListType data = Returned (StructType fs)"
    and "parseFields fs [] = Inr opts"
    and "distinct (map order opts)"
    and "\<forall>f\<in>set fs. annotated f \<longrightarrow> exported f"
    and "\<forall>item\<in>set (Items data). length item = length fs"
  shows "writeWithTags sheet data
         = (Returned None,
            sheet @ map (\<lambda>opt. Str (heading opt)) (sort_key order opts)
              # map (\<lambda>item. map (\<lambda>(opt, v). formatValue opt v)
                       (sort_key (\<lambda>(opt, v). order opt) (zip opts (annotatedValues fs item))))
                  (Items data)) \<and>
         sorted_wrt (<) (map order (sort_key order opts))"
proof -
  obtain os where "opts = [] @ os"
    and "list_all2 (\<lambda>f opt. parseOptFromTag (xls f) = Inr opt) (filter annotated fs) os"
    using parseFields_rel [OF assms(2)] by blast
  then have rel: "list_all2 (\<lambda>f opt. parseOptFromTag (xls f) = Inr opt) (filter annotated fs) opts"
    by simp
  have s: "sort_Sort opts = sort_key order opts"
    using assms(3) by (rule sort_Sort_distinct)
  have "writeItems (sort_key order opts) (orderToCellPos (sort_key order opts)) fs (Items data)
          (replicate (length opts) (Str []))
          (sheet @ [map (\<lambda>opt. Str (heading opt)) (sort_key order opts)])
      = (Returned None,
         (sheet @ [map (\<lambda>opt. Str (heading opt)) (sort_key order opts)])
           @ map (\<lambda>item. map (\<lambda>(opt, v). formatValue opt v)
                       (sort_key (\<lambda>(opt, v). order opt) (zip opts (annotatedValues fs item))))
                  (Items data))"
    by (rule writeItems_rows [OF assms(3) rel assms(4,5)]) simp
  then have "writeWithTags sheet data
         = (Returned None,
            sheet @ map (\<lambda>opt. Str (heading opt)) (sort_key order opts)
              # map (\<lambda>item. map (\<lambda>(opt, v). formatValue opt v)
                       (sort_key (\<lambda>(opt, v). order opt) (zip opts (annotatedValues fs item))))
                  (Items data))"
    using assms(1,2) s
    by (simp add: writeWithTags_def getParseOptions_def Fields_def writeHeadingFromOpts_def
        writeRow_def Let_def)
  moreover have "distinct (map order (sort_key order opts))"
    using assms(3) by (rule distinct_same_set) simp_all
  then have "sorted_wrt (<) (map order (sort_key order opts))"
    by (simp add: strict_sorted_iff)
  ultimately show ?thesis by simp
qed

theorem writeWithTags_columns_in_order_witness:
  "getListType (Some \<lparr>Type = SliceType (StructType
        [\<lparr>Name = ''Colour'', xls = ''order=20,heading=Colour'', exported = True\<rparr>,
         \<lparr>Name = ''id'', xls = [], exported = False\<rparr>,
         \<lparr>Name = ''Size'', xls = ''heading=Size,order=10'', exported = True\<rparr>]),
      methods = None,
      elems = [[V_other ''Color(1)'' (Some ''red''), V_int 7, V_other ''Size(0)'' (Some ''S'')],
               [V_other ''Color(2)'' (Some ''blue''), V_int 8, V_other ''Size(2)'' (Some ''L'')]]\<rparr>)
     = Returned (StructType
        [\<lparr>Name = ''Colour'', xls = ''order=20,heading=Colour'', exported = True\<rparr>,
         \<lparr>Name = ''id'', xls = [], exported = False\<rparr>,
         \<lparr>Name = ''Size'', xls = ''heading=Size,order=10'', exported = True\<rparr>]) \<and>
   parseFields
        [\<lparr>Name = ''Colour'', xls = ''order=20,heading=Colour'', exported = True\<rparr>,
         \<lparr>Name = ''id'', xls = [], exported = False\<rparr>,
         \<lparr>Name = ''Size'', xls = ''heading=Size,order=10'', exported = True\<rparr>] []
     = Inr [\<lparr>order = 20, heading = ''Colour'', format = []\<rparr>,
            \<lparr>order = 10, heading = ''Size'', format = []\<rparr>] \<and>
   distinct (map order [\<lparr>order = 20, heading = ''Colour'', format = []\<rparr>,
                        \<lparr>order = 10, heading = ''Size'', format = []\<rparr>]) \<and>
   writeWithTags [[Str ''kept'']]
     (Some \<lparr>Type = SliceType (StructType
        [\<lparr>Name = ''Colour'', xls = ''order=20,heading=Colour'', exported = True\<rparr>,
         \<lparr>Name = ''id'', xls = [], exported = False\<rparr>,
         \<lparr>Name = ''Size'', xls = ''heading=Size,order=10'', exported = True\<rparr>]),
      methods = None,
      elems = [[V_other ''Color(1)'' (Some ''red''), V_int 7, V_other ''Size(0)'' (Some ''S'')],
               [V_other ''Color(2)'' (Some ''blue''), V_int 8, V_other ''Size(2)'' (Some ''L'')]]\<rparr>)
     = (Returned None,
        [[Str ''kept''], [Str ''Size'', Str ''Colour''],
         [Str ''S'', Str ''red''], [Str ''L'', Str ''blue'']])"
proof -
  define fs where "fs =
        [\<lparr>Name = ''Colour'', xls = ''order=20,heading=Colour'', exported = True\<rparr>,
         \<lparr>Name = ''id'', xls = [], exported = False\<rparr>,
         \<lparr>Name = ''Size'', xls = ''heading=Size,order=10'', exported = True\<rparr>]"
  define its where "its =
              [[V_other ''Color(1)'' (Some ''red''), V_int 7, V_other ''Size(0)'' (Some ''S'')],
               [V_other ''Color(2)'' (Some ''blue''), V_int 8, V_other ''Size(2)'' (Some ''L'')]]"
  define d where "d = Some \<lparr>Type = SliceType (StructType fs), methods = None, elems = its\<rparr>"
  define opts where "opts = [\<lparr>order = 20, heading = ''Colour'', format = []\<rparr>,
            \<lparr>order = 10, heading = ''Size'', format = []\<rparr>]"
  have 1: "getListType d = Returned (StructType fs)"
    by (simp add: d_def getListType_def TypeOf_def)
  have 2: "parseFields fs [] = Inr opts"
    unfolding fs_def opts_def by code_simp
  have 3: "distinct (map order opts)" by (simp add: opts_def)
  have 4: "\<forall>f\<in>set fs. annotated f \<longrightarrow> exported f" by (simp add: fs_def annotated_def)
  have 5: "\<forall>item\<in>set (Items d). length item = length fs"
    by (simp add: d_def Items_def its_def fs_def)
  have 6: "map (\<lambda>opt. Str (heading opt)) (sort_key order opts)
              # map (\<lambda>item. map (\<lambda>(opt, v). formatValue opt v)
                       (sort_key (\<lambda>(opt, v). order opt) (zip opts (annotatedValues fs item))))
                  (Items d)
      = [[Str ''Size'', Str ''Colour''], [Str ''S'', Str ''red''], [Str ''L'', Str ''blue'']]"
    unfolding d_def fs_def its_def opts_def by code_simp
  have "writeWithTags [[Str ''kept'']] d
      = (Returned None,
        [[Str ''kept''], [Str ''Size'', Str ''Colour''],
         [Str ''S'', Str ''red''], [Str ''L'', Str ''blue'']])"
    using writeWithTags_columns_in_order [OF 1 2 3 4 5, of "[[Str ''kept'']]"] 6 by simp
  then show ?thesis
    using 1 2 3 unfolding d_def fs_def its_def opts_def by simp
qed

text \<open>
  C4. Claimed: two fields with the same order both appear, headings and values, in
  declaration order. The cell position is looked up by order, so both fields write into the
  same cell, the later one last; the other cell under their two headings is never written.
\<close>

theorem writeWithTags_same_order_one_cell:
  "writeWithTags []
     (Some \<lparr>Type = SliceType (StructType
        [\<lparr>Name = ''First'', xls = ''order=1,heading=First'', exported = True\<rparr>,
         \<lparr>Name = ''Second'', xls = ''order=1,heading=Second'', exported = True\<rparr>]),
      methods = None,
      elems = [[V_other ''Color(1)'' (Some ''red''), V_other ''Color(2)'' (Some ''blue'')]]\<rparr>)
     = (Returned None, [[Str ''First'', Str ''Second''], [Str [], Str ''blue'']])"
  by code_simp

section \<open>The entry point\<close>

text \<open>
  C9. When \<^verbatim>\<open>data\<close> is neither an array nor a slice (a single struct, say, or nil),
  \<^verbatim>\<open>WriteToSheet\<close> returns \<^verbatim>\<open>ErrUnsupportedType\<close> and leaves the sheet as it was.
\<close>

theorem WriteToSheet_not_sequence:
  "ValueOf_Kind data \<noteq> Array \<Longrightarrow> ValueOf_Kind data \<noteq> Slice \<Longrightarrow>
   WriteToSheet sheet data = (Returned (Some ErrUnsupportedType), sheet)"
  by (simp add: WriteToSheet_def)

theorem WriteToSheet_not_sequence_witness:
  "ValueOf_Kind (Some \<lparr>Type = StructType [\<lparr>Name = ''Qty'', xls = ''order=1,heading=Qty'', exported = True\<rparr>],
       methods = None, elems = []\<rparr>) \<noteq> Array \<and>
   ValueOf_Kind (Some \<lparr>Type = StructType [\<lparr>Name = ''Qty'', xls = ''order=1,heading=Qty'', exported = True\<rparr>],
       methods = None, elems = []\<rparr>) \<noteq> Slice \<and>
   WriteToSheet [[Str ''kept'']]
     (Some \<lparr>Type = StructType [\<lparr>Name = ''Qty'', xls = ''order=1,heading=Qty'', exported = True\<rparr>],
       methods = None, elems = []\<rparr>)
     = (Returned (Some ErrUnsupportedType), [[Str ''kept'']])"
  using WriteToSheet_not_sequence [of
      "Some \<lparr>Type = StructType [\<lparr>Name = ''Qty'', xls = ''order=1,heading=Qty'', exported = True\<rparr>],
         methods = None, elems = []\<rparr>" "[[Str ''kept'']]"]
  by (simp add: ValueOf_Kind_def)

text \<open>
  C10. Claimed: on an array or slice of structs \<^verbatim>\<open>WriteToSheet\<close> never panics. The code
  panics on every such input: \<^verbatim>\<open>marshallerType\<close> is the nil type, and
  \<^verbatim>\<open>Implements\<close> panics on a nil argument, before either path is taken.
\<close>

theorem WriteToSheet_panics:
  "Type v = SliceType (StructType fs) \<or> Type v = ArrayType n (StructType fs) \<Longrightarrow>
   WriteToSheet sheet (Some v) = (Panicked ''reflect: nil type passed to Type.Implements'', sheet)"
  by (auto simp: WriteToSheet_def ValueOf_Kind_def getListType_def TypeOf_def Implements_def
      marshallerType_def)

theorem WriteToSheet_panics_witness:
  "(Type \<lparr>Type = SliceType (StructType []), methods = None, elems = []\<rparr>
      = SliceType (StructType []) \<or>
    Type \<lparr>Type = SliceType (StructType []), methods = None, elems = []\<rparr>
      = ArrayType 0 (StructType [])) \<and>
   WriteToSheet [] (Some \<lparr>Type = SliceType (StructType []), methods = None, elems = []\<rparr>)
     = (Panicked ''reflect: nil type passed to Type.Implements'', [])"
  using WriteToSheet_panics [of "\<lparr>Type = SliceType (StructType []), methods = None, elems = []\<rparr>"
      "[]" 0 "[]"]
  by simp

text \<open>
  The explicit path by itself: for a collection whose type has the \<^verbatim>\<open>Marshaller\<close> methods,
  \<^verbatim>\<open>writeWithMarshaller\<close> appends the header and then each row of \<^verbatim>\<open>Data()\<close>, as they are
  and in order, and returns nil.
\<close>

lemma writeWithMarshaller_rows:
  "methods v = Some m \<Longrightarrow>
   writeWithMarshaller sheet (Some v) = (Returned None, sheet @ map (map Str) (Header m # Data m))"
proof -
  have "foldl (\<lambda>sh row. writeRow sh (map Str row)) sh0 rows = sh0 @ map (map Str) rows"
    for sh0 rows
    by (induction rows arbitrary: sh0) (simp_all add: writeRow_def)
  then show "methods v = Some m \<Longrightarrow> ?thesis"
    by (simp add: writeWithMarshaller_def writeHeading_def writeRow_def)
qed

text \<open>
  C3. Claimed: for a collection with the capability, the write emits the capability's header
  and then its rows, and never runs the declarative path; for any other sequence of structs
  it runs the declarative path. \<^verbatim>\<open>WriteToSheet\<close> has this routing, but never gets to it: the
  capability test panics first (see C10). On a slice of structs whose type has the
  \<^verbatim>\<open>Marshaller\<close> methods, \<^verbatim>\<open>WriteToSheet\<close> panics and leaves the sheet empty, where the
  explicit path would have written the three rows (and the declarative path two).
\<close>

theorem WriteToSheet_neither_path:
  "WriteToSheet []
     (Some \<lparr>Type = SliceType (StructType [\<lparr>Name = ''A'', xls = ''order=1,heading=A'', exported = True\<rparr>]),
        methods = Some \<lparr>Header = [''A'', ''B''], Data = [[''1'', ''2''], [''3'', ''4'']]\<rparr>,
        elems = [[V_other ''Color(2)'' (Some ''blue'')]]\<rparr>)
     = (Panicked ''reflect: nil type passed to Type.Implements'', []) \<and>
   writeWithMarshaller []
     (Some \<lparr>Type = SliceType (StructType [\<lparr>Name = ''A'', xls = ''order=1,heading=A'', exported = True\<rparr>]),
        methods = Some \<lparr>Header = [''A'', ''B''], Data = [[''1'', ''2''], [''3'', ''4'']]\<rparr>,
        elems = [[V_other ''Color(2)'' (Some ''blue'')]]\<rparr>)
     = (Returned None, [[Str ''A'', Str ''B''], [Str ''1'', Str ''2''], [Str ''3'', Str ''4'']]) \<and>
   writeWithTags []
     (Some \<lparr>Type = SliceType (StructType [\<lparr>Name = ''A'', xls = ''order=1,heading=A'', exported = True\<rparr>]),
        methods = Some \<lparr>Header = [''A'', ''B''], Data = [[''1'', ''2''], [''3'', ''4'']]\<rparr>,
        elems = [[V_other ''Color(2)'' (Some ''blue'')]]\<rparr>)
     = (Returned None, [[Str ''A''], [Str ''blue'']])"
  by code_simp

end
